theory Spec2Isabelle
  imports Main "HOL-Library.Word" "HOL-Library.Multiset" "HOL-Library.Code_Target_Numeral"
begin

section \<open>Go standard library functions used by package fs\<close>

text \<open>
  Go strings are byte sequences, modelled as \<open>string\<close> (a list of \<open>char\<close>, one per byte);
  \<open>len\<close> is \<open>length\<close>. The store runs on Unix only, so \<open>filepath.Separator\<close> is the
  slash.
\<close>

definition Separator :: char where
  "Separator = CHR ''/''"

text \<open>\<open>strings.HasSuffix(s, suffix)\<close>.\<close>

definition HasSuffix :: "string \<Rightarrow> string \<Rightarrow> bool" where
  "HasSuffix s suffix =
     (length suffix \<le> length s \<and> drop (length s - length suffix) s = suffix)"

text \<open>
  \<open>strings.Index(s, ".")\<close> and \<open>strings.LastIndex(s, ".")\<close> with a one-byte pattern:
  the index of the first (last) occurrence of the byte, or \<open>-1\<close>.
\<close>

fun Index :: "string \<Rightarrow> char \<Rightarrow> int" where
  "Index [] c = - 1"
| "Index (x # xs) c =
     (if x = c then 0 else (let i = Index xs c in if i < 0 then - 1 else i + 1))"

definition LastIndex :: "string \<Rightarrow> char \<Rightarrow> int" where
  "LastIndex s c =
     (let i = Index (rev s) c in if i < 0 then - 1 else int (length s) - 1 - i)"

text \<open>
  \<open>filepath.Split(path)\<close> on Unix: the index walks back from the end to the last
  separator; the directory is everything up to and including it, the file what follows.
  Without a separator the directory is empty.
\<close>

definition filepath_Split :: "string \<Rightarrow> string \<times> string" where
  "filepath_Split path =
     (let i = LastIndex path Separator
      in (take (nat (i + 1)) path, drop (nat (i + 1)) path))"

text \<open>
  \<open>filepath.Clean\<close> on Unix, by path elements. The path is cut at every separator;
  empty elements and \<open>.\<close> are dropped; \<open>..\<close> removes the element before it when there is
  one that is not itself \<open>..\<close>, is dropped at the root of a rooted path, and is kept
  otherwise. The kept elements are joined by single separators, after the leading
  separator of a rooted path, and an empty result is \<open>.\<close>.
\<close>

fun split_sep :: "string \<Rightarrow> string list" where
  "split_sep [] = [[]]"
| "split_sep (c # cs) =
     (if c = Separator then [] # split_sep cs
      else (case split_sep cs of
              [] \<Rightarrow> [[c]]
            | e # es \<Rightarrow> (c # e) # es))"

fun join_sep :: "string list \<Rightarrow> string" where
  "join_sep [] = []"
| "join_sep [e] = e"
| "join_sep (e # es) = e @ Separator # join_sep es"

definition clean_step :: "bool \<Rightarrow> string list \<Rightarrow> string \<Rightarrow> string list" where
  "clean_step rooted out e =
     (if e = [] \<or> e = ''.'' then out
      else if e = ''..'' then
        (if out \<noteq> [] \<and> last out \<noteq> ''..'' then butlast out
         else if rooted then out
         else out @ [''..''])
      else out @ [e])"

definition filepath_Clean :: "string \<Rightarrow> string" where
  "filepath_Clean path =
     (if path = [] then ''.''
      else
        (let rooted = (hd path = Separator);
             out = foldl (clean_step rooted) [] (split_sep path)
         in if rooted then Separator # join_sep out
            else if out = [] then ''.''
            else join_sep out))"

text \<open>
  \<open>filepath.Join(dir, fname)\<close> with two elements: empty leading elements are skipped,
  the rest is joined by the separator and cleaned; all elements empty gives the empty
  string.
\<close>

definition filepath_Join :: "string \<Rightarrow> string \<Rightarrow> string" where
  "filepath_Join a b =
     (if a \<noteq> [] then filepath_Clean (a @ Separator # b)
      else if b \<noteq> [] then filepath_Clean b
      else [])"

text \<open>
  \<open>strconv.FormatInt(i, 16)\<close>: lower-case hexadecimal digits, most significant first,
  after a minus sign for a negative number.
\<close>

definition digits :: string where
  "digits = ''0123456789abcdefghijklmnopqrstuvwxyz''"

definition hexdigit :: "nat \<Rightarrow> char" where
  "hexdigit d = digits ! d"

function formatBits :: "nat \<Rightarrow> string" where
  "formatBits n = (if n < 16 then [hexdigit n] else formatBits (n div 16) @ [hexdigit (n mod 16)])"
  by pat_completeness auto
termination
  by (relation "measure (\<lambda>n. n)") auto

declare formatBits.simps [simp del]

definition FormatInt16 :: "int \<Rightarrow> string" where
  "FormatInt16 i = (if i < 0 then CHR ''-'' # formatBits (nat (- i)) else formatBits (nat i))"

text \<open>
  \<open>strconv.ParseInt(s, 16, 64)\<close>. With the base given, no prefix and no underscore is
  accepted; a digit is \<open>0\<close>..\<open>9\<close> or a letter of either case with value below 16. The
  unsigned value is accumulated with the range checks of \<open>ParseUint\<close> (the value before
  and after each digit must fit 64 bits); the signed result must fit \<open>int64\<close>. Every
  failure is a non-nil error.
\<close>

datatype NumError = ErrSyntax | ErrRange

definition hexval :: "char \<Rightarrow> nat option" where
  "hexval c =
     (let n = (of_char c :: nat)
      in if 48 \<le> n \<and> n \<le> 57 then Some (n - 48)
         else if 97 \<le> n \<and> n \<le> 102 then Some (n - 87)
         else if 65 \<le> n \<and> n \<le> 70 then Some (n - 55)
         else None)"

fun parse_digits :: "nat \<Rightarrow> string \<Rightarrow> NumError + nat" where
  "parse_digits n [] = Inr n"
| "parse_digits n (c # cs) =
     (case hexval c of
        None \<Rightarrow> Inl ErrSyntax
      | Some d \<Rightarrow>
          if n \<ge> 2 ^ 60 then Inl ErrRange
          else (let n1 = n * 16 + d
                in if n1 > 2 ^ 64 - 1 then Inl ErrRange else parse_digits n1 cs))"

definition ParseUint16 :: "string \<Rightarrow> NumError + nat" where
  "ParseUint16 s = (if s = [] then Inl ErrSyntax else parse_digits 0 s)"

definition ParseInt16 :: "string \<Rightarrow> NumError + int" where
  "ParseInt16 s =
     (if s = [] then Inl ErrSyntax
      else
        (let neg = (hd s = CHR ''-'');
             s1 = (if hd s = CHR ''+'' \<or> hd s = CHR ''-'' then tl s else s)
         in case ParseUint16 s1 of
              Inl e \<Rightarrow> Inl e
            | Inr un \<Rightarrow>
                if \<not> neg \<and> un \<ge> 2 ^ 63 then Inl ErrRange
                else if neg \<and> un > 2 ^ 63 then Inl ErrRange
                else Inr (if neg then - int un else int un)))"

section \<open>Package fs: content types and their resolvers\<close>

definition contentTypeLen :: nat where
  "contentTypeLen = 2"

definition ObjectType :: string where "ObjectType = ''ob''"
definition WorkfileType :: string where "WorkfileType = ''wk''"
definition ECSliceType :: string where "ECSliceType = ''ec''"
definition ECMetaType :: string where "ECMetaType = ''mt''"

text \<open>
  The interface \<open>ContentResolver\<close> has four implementations in \<open>content.go\<close>, all of them
  empty structs; a resolver value is one of the four.
\<close>

datatype ContentResolver =
    ObjectContentResolver
  | WorkfileContentResolver
  | ECSliceContentResolver
  | ECMetaContentResolver

fun PermToMove :: "ContentResolver \<Rightarrow> bool" where
  "PermToMove ObjectContentResolver = True"
| "PermToMove WorkfileContentResolver = False"
| "PermToMove ECSliceContentResolver = True"
| "PermToMove ECMetaContentResolver = True"

fun PermToEvict :: "ContentResolver \<Rightarrow> bool" where
  "PermToEvict ObjectContentResolver = True"
| "PermToEvict WorkfileContentResolver = True"
| "PermToEvict ECSliceContentResolver = True"
| "PermToEvict ECMetaContentResolver = True"

fun PermToProcess :: "ContentResolver \<Rightarrow> bool" where
  "PermToProcess ObjectContentResolver = True"
| "PermToProcess WorkfileContentResolver = False"
| "PermToProcess ECSliceContentResolver = False"
| "PermToProcess ECMetaContentResolver = False"

text \<open>
  \<open>WorkfileContentResolver.GenUniqueFQN\<close> reads two things that \<open>content.go\<close> does not
  define: the tie breaker returned by \<open>cos.GenTie()\<close>, and the package variable \<open>spid\<close>.
  Both are arguments here: \<open>tie\<close> is the string \<open>GenTie\<close> returned for this call.
\<close>

text \<open>
  Modelled from the spec: the package variables \<open>pid\<close> and \<open>spid\<close> are not in
  \<open>content.go\<close>; the spec names the last field of a workfile name \<open>hex(pid)\<close>, so \<open>spid\<close>
  is the base-16 text of the process id \<open>pid\<close>.
\<close>

definition spid :: "int \<Rightarrow> string" where
  "spid pid = FormatInt16 pid"

definition Workfile_GenUniqueFQN :: "string \<Rightarrow> int \<Rightarrow> string \<Rightarrow> string \<Rightarrow> string" where
  "Workfile_GenUniqueFQN tie pid base prefix =
     (let (dir, fname) = filepath_Split base;
          tieBreaker = tie;
          fname = prefix @ ''.'' @ fname;
          base = filepath_Join dir fname
      in base @ ''.'' @ tieBreaker @ ''.'' @ spid pid)"

definition Workfile_ParseUniqueFQN :: "int \<Rightarrow> string \<Rightarrow> string \<times> bool \<times> bool" where
  "Workfile_ParseUniqueFQN pid base =
     (let cntIndex = Index base (CHR ''.'')
      in if cntIndex < 0 then ([], False, False)
         else
           (let base = drop (nat (cntIndex + 1)) base;
                pidIndex = LastIndex base (CHR ''.'')
            in if pidIndex < 0 then ([], False, False)
               else
                 (let tieIndex = LastIndex (take (nat pidIndex) base) (CHR ''.'')
                  in if tieIndex < 0 then ([], False, False)
                     else
                       (case ParseInt16 (drop (nat (pidIndex + 1)) base) of
                          Inl err \<Rightarrow> ([], False, False)
                        | Inr filePID \<Rightarrow> (take (nat tieIndex) base, filePID \<noteq> pid, True)))))"

fun GenUniqueFQN :: "string \<Rightarrow> int \<Rightarrow> ContentResolver \<Rightarrow> string \<Rightarrow> string \<Rightarrow> string" where
  "GenUniqueFQN tie pid ObjectContentResolver base prefix = base"
| "GenUniqueFQN tie pid WorkfileContentResolver base prefix =
     Workfile_GenUniqueFQN tie pid base prefix"
| "GenUniqueFQN tie pid ECSliceContentResolver base prefix = base"
| "GenUniqueFQN tie pid ECMetaContentResolver base prefix = base"

fun ParseUniqueFQN :: "int \<Rightarrow> ContentResolver \<Rightarrow> string \<Rightarrow> string \<times> bool \<times> bool" where
  "ParseUniqueFQN pid ObjectContentResolver base = (base, False, True)"
| "ParseUniqueFQN pid WorkfileContentResolver base = Workfile_ParseUniqueFQN pid base"
| "ParseUniqueFQN pid ECSliceContentResolver base = (base, False, True)"
| "ParseUniqueFQN pid ECMetaContentResolver base = (base, False, True)"

section \<open>Package fs: the content registry\<close>

record ContentInfo =
  Dir :: string
  Base :: string
  Type :: string
  Old :: bool

text \<open>
  \<open>contentSpecMgr\<close> holds one Go map from content type to resolver. Reading a missing
  key of a Go map gives the nil interface: \<open>None\<close>.
\<close>

type_synonym contentSpecMgr = "string \<rightharpoonup> ContentResolver"

definition Resolver :: "contentSpecMgr \<Rightarrow> string \<Rightarrow> ContentResolver option" where
  "Resolver m contentType = m contentType"

datatype RegError =
    ErrContainsSeparator string
  | ErrBadLength string
  | ErrAlreadyRegistered string

text \<open>
  \<open>Reg\<close> returns an error and leaves the map as it was, or stores the resolver and
  returns nil: \<open>Inl\<close> the error, \<open>Inr\<close> the updated map.
\<close>

definition Reg :: "contentSpecMgr \<Rightarrow> string \<Rightarrow> ContentResolver \<Rightarrow> RegError + contentSpecMgr" where
  "Reg m contentType spec =
     (if Separator \<in> set contentType then Inl (ErrContainsSeparator contentType)
      else if length contentType \<noteq> contentTypeLen then Inl (ErrBadLength contentType)
      else if m contentType \<noteq> None then Inl (ErrAlreadyRegistered contentType)
      else Inr (m(contentType \<mapsto> spec)))"

record Mountpath =
  Path :: string

record Bck =
  Name :: string

record PartsFQN =
  ObjectName :: string
  Bucket :: Bck
  Mountpath :: Mountpath
  CacheIdx :: int

text \<open>
  Modelled from the spec: \<open>Mountpath.MakePathFQN\<close> is not among the sources. The spec
  says that the mountpath combines its root with bucket, content type and the unique
  basename, and that an FQN encodes mountpath root, bucket, content type and basename:
  the four are joined by separators, in that order.
\<close>

definition MakePathFQN :: "Mountpath \<Rightarrow> Bck \<Rightarrow> string \<Rightarrow> string \<Rightarrow> string" where
  "MakePathFQN mi bck contentType objName =
     Path mi @ Separator # Name bck @ Separator # contentType @ Separator # objName"

text \<open>
  Calling a method of the nil interface panics. \<open>Gen\<close> reads the map without the
  two-value form and calls \<open>GenUniqueFQN\<close> on what it got, so a content type that is
  not in the map ends in that panic.
\<close>

datatype panic = NilDereference

definition Gen :: "contentSpecMgr \<Rightarrow> string \<Rightarrow> int \<Rightarrow> PartsFQN \<Rightarrow> string \<Rightarrow> string \<Rightarrow> panic + string" where
  "Gen m tie pid parts contentType prefix =
     (case m contentType of
        None \<Rightarrow> Inl NilDereference
      | Some spec \<Rightarrow>
          (let objName = GenUniqueFQN tie pid spec (ObjectName parts) prefix
           in Inr (MakePathFQN (Mountpath parts) (Bucket parts) contentType objName)))"

record ParsedFQN =
  MpathInfo :: Mountpath
  ContentType :: string
  ParsedBck :: Bck
  ObjName :: string

datatype FQNError = ErrNoMountpath | ErrMalformedFQN

text \<open>
  \<open>ParseFQN\<close> is not among the sources either. \<open>FileSpec\<close> takes it as the argument
  \<open>parseFQN\<close>, a function from the FQN to an error or the parsed parts, and uses only
  the content type of what it returns. The log line for an unknown content type has no
  effect on the result and is left out.
\<close>

definition FileSpec ::
  "(string \<Rightarrow> FQNError + ParsedFQN) \<Rightarrow> contentSpecMgr \<Rightarrow> int \<Rightarrow> string
     \<Rightarrow> ContentResolver option \<times> ContentInfo option" where
  "FileSpec parseFQN m pid fqn =
     (let (dir, base) = filepath_Split fqn
      in if \<not> HasSuffix dir ''/'' \<or> base = [] then (None, None)
         else
           (case parseFQN fqn of
              Inl err \<Rightarrow> (None, None)
            | Inr parsedFQN \<Rightarrow>
                (case m (ContentType parsedFQN) of
                   None \<Rightarrow> (None, None)
                 | Some spec \<Rightarrow>
                     (let (origBase, old, ok) = ParseUniqueFQN pid spec base
                      in if \<not> ok then (None, None)
                         else (Some spec,
                               Some \<lparr>Dir = dir, Base = origBase,
                                     Type = ContentType parsedFQN, Old = old\<rparr>)))))"

text \<open>
  The three permission queries of the registry. \<open>PermToEvict\<close> reads \<open>info.Old\<close> after
  testing only \<open>spec\<close> against nil, so a nil \<open>info\<close> beside a resolver would panic.
\<close>

definition CSM_PermToEvict ::
  "(string \<Rightarrow> FQNError + ParsedFQN) \<Rightarrow> contentSpecMgr \<Rightarrow> int \<Rightarrow> string \<Rightarrow> panic + (bool \<times> bool)" where
  "CSM_PermToEvict parseFQN m pid fqn =
     (case FileSpec parseFQN m pid fqn of
        (None, info) \<Rightarrow> Inr (True, False)
      | (Some spec, None) \<Rightarrow> Inl NilDereference
      | (Some spec, Some info) \<Rightarrow> Inr (PermToEvict spec, Old info))"

definition CSM_PermToMove ::
  "(string \<Rightarrow> FQNError + ParsedFQN) \<Rightarrow> contentSpecMgr \<Rightarrow> int \<Rightarrow> string \<Rightarrow> bool" where
  "CSM_PermToMove parseFQN m pid fqn =
     (case FileSpec parseFQN m pid fqn of
        (None, info) \<Rightarrow> False
      | (Some spec, info) \<Rightarrow> PermToMove spec)"

definition CSM_PermToProcess ::
  "(string \<Rightarrow> FQNError + ParsedFQN) \<Rightarrow> contentSpecMgr \<Rightarrow> int \<Rightarrow> string \<Rightarrow> bool" where
  "CSM_PermToProcess parseFQN m pid fqn =
     (case FileSpec parseFQN m pid fqn of
        (None, info) \<Rightarrow> False
      | (Some spec, info) \<Rightarrow> PermToProcess spec)"

text \<open>
  Modelled from the spec: \<open>ParseFQN\<close> is missing from the sources. By the spec an FQN
  encodes mountpath root, bucket, content type and basename, and decoding parses the
  content type: the FQN must start with the root of one of the mountpaths; what follows
  is cut at the next two separators into bucket, content type and object name, none of
  them empty.
\<close>

definition HasPrefix :: "string \<Rightarrow> string \<Rightarrow> bool" where
  "HasPrefix s pre = (take (length pre) s = pre)"

fun find_mpath :: "Mountpath list \<Rightarrow> string \<Rightarrow> Mountpath option" where
  "find_mpath [] fqn = None"
| "find_mpath (mi # mis) fqn =
     (if HasPrefix fqn (Path mi @ [Separator]) then Some mi else find_mpath mis fqn)"

definition cut_sep :: "string \<Rightarrow> (string \<times> string) option" where
  "cut_sep s =
     (let i = Index s Separator
      in if i < 0 then None else Some (take (nat i) s, drop (nat (i + 1)) s))"

definition ParseFQN :: "Mountpath list \<Rightarrow> string \<Rightarrow> FQNError + ParsedFQN" where
  "ParseFQN mpaths fqn =
     (case find_mpath mpaths fqn of
        None \<Rightarrow> Inl ErrNoMountpath
      | Some mi \<Rightarrow>
          (case cut_sep (drop (length (Path mi) + 1) fqn) of
             None \<Rightarrow> Inl ErrMalformedFQN
           | Some (bucket, rest) \<Rightarrow>
               (case cut_sep rest of
                  None \<Rightarrow> Inl ErrMalformedFQN
                | Some (contentType, objName) \<Rightarrow>
                    if bucket = [] \<or> contentType = [] \<or> objName = [] then Inl ErrMalformedFQN
                    else Inr \<lparr>MpathInfo = mi, ContentType = contentType,
                              ParsedBck = \<lparr>Name = bucket\<rparr>, ObjName = objName\<rparr>)))"

section \<open>Package mirror: the bucket-copy job and its joggers\<close>

text \<open>
  An error value as \<open>copyObject\<close> meets it, from \<open>CopyObject\<close> or from the capacity
  status: the text that \<open>Error()\<close> returns, and whether \<open>cmn.IsErrOOS\<close> classifies it
  as out of space. A nil error is \<open>None\<close>.
\<close>

record error =
  Message :: string
  OutOfSpace :: bool

definition IsErrOOS :: "error option \<Rightarrow> bool" where
  "IsErrOOS err = (case err of None \<Rightarrow> False | Some e \<Rightarrow> OutOfSpace e)"

text \<open>
  What \<open>copyObject\<close> returns: the error of \<open>CopyObject\<close> as it came, or the error built by
  \<open>cmn.NewAbortedErrorDetails(what, details)\<close>. The text \<open>what\<close> is
  \<open>fmt.Sprintf("%s(%q)", kind, id)\<close>; it is kept as its two arguments, the kind and the
  id of the job.
\<close>

datatype jogError =
    Err error
  | ErrAborted "string \<times> string" string

record LOM =
  Uname :: string
  Size :: "64 word"

datatype buffer = NilBuf | Buf nat

datatype slabEvent = SlabAlloc buffer | SlabFree buffer

text \<open>
  The job. \<open>Kind\<close>, \<open>ID\<close> and the two counters belong to the embedded \<open>XactBase\<close>; \<open>slab\<close>
  records the calls made on the job's \<open>memsys.Slab\<close>, oldest first. Sizes and counters
  are \<open>int64\<close>: 64-bit words, whose addition wraps.
\<close>

record XactBckCopy =
  Kind :: string
  ID :: string
  objs :: "64 word"
  bytes :: "64 word"
  slab :: "slabEvent list"

text \<open>
  Modelled from the spec: \<open>ObjectsInc\<close> and \<open>BytesAdd\<close> of \<open>XactBase\<close> are not among the
  sources; they maintain the running counters of objects processed and bytes moved.
\<close>

definition ObjectsInc :: "XactBckCopy \<Rightarrow> XactBckCopy" where
  "ObjectsInc r = r\<lparr>objs := objs r + 1\<rparr>"

definition BytesAdd :: "XactBckCopy \<Rightarrow> 64 word \<Rightarrow> XactBckCopy" where
  "BytesAdd r n = r\<lparr>bytes := bytes r + n\<rparr>"

text \<open>
  The jogger: \<open>num\<close> is the counter of the embedded \<open>joggerBckBase\<close>, \<open>buf\<close> the jogger's
  I/O buffer. \<open>newBCCJogger\<close> leaves both at their zero values.
\<close>

record bccJogger =
  num :: "64 word"
  buf :: buffer

definition newBCCJogger :: bccJogger where
  "newBCCJogger = \<lparr>num = 0, buf = NilBuf\<rparr>"

text \<open>
  \<open>copyObject\<close>, the per-object callback. Its surroundings are arguments: the constant
  \<open>throttleNumObjects\<close> (declared outside the sources), what the target's \<open>CopyObject\<close>
  returned for this object, and the \<open>Err\<close> field of what \<open>fs.GetCapStatus()\<close> returns
  at this moment. The state is the jogger together with its parent job. The interval
  is a constant other than zero, and the remainder \<open>j.num % throttleNumObjects\<close> is zero
  exactly when the interval divides the signed value of \<open>num\<close>.
\<close>

definition copyObject ::
  "int \<Rightarrow> bool \<times> error option \<Rightarrow> error option \<Rightarrow> bccJogger \<times> XactBckCopy \<Rightarrow> LOM
     \<Rightarrow> (bccJogger \<times> XactBckCopy) \<times> jogError option" where
  "copyObject throttleNumObjects CopyObject GetCapStatus_Err jr lom =
     (let (j, r) = jr;
          (copied, err) = CopyObject;
          what = (Kind r, ID r);
          rest = (\<lambda>jr. case err of
                     None \<Rightarrow> (jr, None)
                   | Some e \<Rightarrow>
                       if IsErrOOS err then (jr, Some (ErrAborted what (Message e)))
                       else (jr, Some (Err e)))
      in if copied then
           (let r = ObjectsInc r;
                r = BytesAdd r (Size lom + Size lom);
                j = j\<lparr>num := num j + 1\<rparr>
            in if sint (num j) mod throttleNumObjects = 0 then
                 (case GetCapStatus_Err of
                    Some csErr \<Rightarrow> ((j, r), Some (ErrAborted what (Message csErr)))
                  | None \<Rightarrow> rest (j, r))
               else rest (j, r))
         else rest (j, r))"

text \<open>
  Modelled from the spec: \<open>joggerBckBase.jog\<close> is not among the sources. By the spec a
  jogger enumerates the objects of its mountpath and applies the per-object callback to
  each; for bucket copy an error of the callback ends the walk, and the jogger reports
  its result to the job. An object of the walk comes with what \<open>CopyObject\<close> returns for
  it and what the capacity status says when it is visited.
\<close>

type_synonym visit = "LOM \<times> (bool \<times> error option) \<times> error option"

fun joggerBckBase_jog ::
  "int \<Rightarrow> bccJogger \<times> XactBckCopy \<Rightarrow> visit list
     \<Rightarrow> (bccJogger \<times> XactBckCopy) \<times> jogError option" where
  "joggerBckBase_jog throttleNumObjects jr [] = (jr, None)"
| "joggerBckBase_jog throttleNumObjects jr ((lom, res, cs) # visits) =
     (case copyObject throttleNumObjects res cs jr lom of
        (jr', Some e) \<Rightarrow> (jr', Some e)
      | (jr', None) \<Rightarrow> joggerBckBase_jog throttleNumObjects jr' visits)"




text \<open>
  The job's own thread, as the sequence of what it does. A jogger is started by a \<open>go\<close>
  statement and runs beside the job; what the job sees of it is its report.
\<close>

datatype event =
    DMOpen
  | Launch Mountpath
  | Reported Mountpath "jogError option"
  | Sleep nat
  | DMClose
  | DMUnregRecv
  | Finish "jogError option"

text \<open>
  \<open>runJoggers\<close>: one jogger per entry of the mountpath snapshot that \<open>fs.Get()\<close> returns
  (here in the order of the iteration), each started at once; the result is their
  number, \<open>len(availablePaths)\<close>. Entering the jogger into \<open>r.mpathers\<close> changes nothing
  that is observed here.
\<close>

fun launch_all :: "Mountpath list \<Rightarrow> event list" where
  "launch_all [] = []"
| "launch_all (mpathInfo # rest) = Launch mpathInfo # launch_all rest"

definition runJoggers :: "Mountpath list \<Rightarrow> event list \<times> nat" where
  "runJoggers availablePaths = (launch_all availablePaths, length availablePaths)"

text \<open>
  Modelled from the spec: \<open>xactBckBase.waitDone\<close> is not among the sources. By the spec
  \<open>WaitDone(n)\<close> blocks until \<open>n\<close> joggers report and returns the first error. The
  reports arrive in some order, given as a list; when the reports run out before \<open>n\<close>
  of them have come, the call never returns: \<open>None\<close>.
\<close>

fun waitDone :: "nat \<Rightarrow> (Mountpath \<times> jogError option) list \<Rightarrow> (event list \<times> jogError option) option" where
  "waitDone 0 reports = Some ([], None)"
| "waitDone (Suc n) [] = None"
| "waitDone (Suc n) ((mi, e) # reports) =
     (case waitDone n reports of
        None \<Rightarrow> None
      | Some (evs, err) \<Rightarrow>
          Some (Reported mi e # evs, (case e of Some x \<Rightarrow> Some x | None \<Rightarrow> err)))"

text \<open>
  \<open>XactBckCopy.Run\<close>: the events of the job's thread and the error it returns, or
  \<open>None\<close> when \<open>waitDone\<close> never returns. The log line is left out.
\<close>

definition Run ::
  "Mountpath list \<Rightarrow> (Mountpath \<times> jogError option) list \<Rightarrow> (event list \<times> jogError option) option" where
  "Run availablePaths reports =
     (let (launched, mpathCount) = runJoggers availablePaths
      in case waitDone mpathCount reports of
           None \<Rightarrow> None
         | Some (evs, err) \<Rightarrow>
             Some ([DMOpen] @ launched @ evs @ [Sleep 2, DMClose, DMUnregRecv, Finish err], err))"

text \<open>
  Readings of a sequence of events: the mountpaths of the joggers launched, the
  mountpaths of the joggers that have reported, the calls of \<open>Finish\<close>, and the events
  that precede the first occurrence of a given one.
\<close>

fun launches :: "event list \<Rightarrow> Mountpath list" where
  "launches [] = []"
| "launches (Launch mi # tr) = mi # launches tr"
| "launches (ev # tr) = launches tr"

fun reporters :: "event list \<Rightarrow> Mountpath list" where
  "reporters [] = []"
| "reporters (Reported mi e # tr) = mi # reporters tr"
| "reporters (ev # tr) = reporters tr"

fun is_Finish :: "event \<Rightarrow> bool" where
  "is_Finish (Finish err) = True"
| "is_Finish ev = False"

definition before :: "event \<Rightarrow> event list \<Rightarrow> event list" where
  "before ev tr = takeWhile (\<lambda>x. x \<noteq> ev) tr"

definition report_event :: "Mountpath \<times> jogError option \<Rightarrow> event" where
  "report_event rep = Reported (fst rep) (snd rep)"

text \<open>
  The number of objects of a walk that \<open>CopyObject\<close> reports copied: these are the
  objects the jogger counts in \<open>num\<close> and the job counts as processed.
\<close>

definition copied_count :: "visit list \<Rightarrow> nat" where
  "copied_count visits = length (filter (\<lambda>(lom, res, cs). fst res) visits)"

text \<open>
  Two mountpaths are nested when the root of one, with its separator, starts the root
  of the other. The directory part of a name is clean when each of its path elements is
  a name: not empty, not \<open>.\<close> and not \<open>..\<close>.
\<close>

definition nested :: "Mountpath \<Rightarrow> Mountpath \<Rightarrow> bool" where
  "nested a b =
     (HasPrefix (Path a @ [Separator]) (Path b @ [Separator])
      \<or> HasPrefix (Path b @ [Separator]) (Path a @ [Separator]))"

definition clean_dir :: "string \<Rightarrow> bool" where
  "clean_dir name = (\<forall>e \<in> set (butlast (split_sep name)). e \<noteq> [] \<and> e \<noteq> ''.'' \<and> e \<noteq> ''..'')"

section \<open>Properties of the standard functions\<close>

lemma Index_notin: "c \<notin> set s \<Longrightarrow> Index s c = - 1"
  by (induction s) auto

lemma Index_nonneg: "c \<in> set s \<Longrightarrow> 0 \<le> Index s c"
  by (induction s) (auto simp: Let_def)

lemma Index_neg_iff: "Index s c < 0 \<longleftrightarrow> c \<notin> set s"
  using Index_notin [of c s] Index_nonneg [of c s] by auto

lemma Index_first: "c \<notin> set a \<Longrightarrow> Index (a @ c # b) c = int (length a)"
  by (induction a) (auto simp: Let_def)

lemma LastIndex_neg_iff: "LastIndex s c < 0 \<longleftrightarrow> c \<notin> set s"
proof -
  have "Index (rev s) c < 0 \<longleftrightarrow> c \<notin> set s" by (simp add: Index_neg_iff)
  moreover have "Index (rev s) c \<le> int (length s) - 1" if "c \<in> set s"
  proof -
    from that obtain a b where "rev s = a @ c # b" "c \<notin> set a"
      by (metis set_rev split_list_first)
    then have "Index (rev s) c = int (length a)" "length (rev s) = length a + 1 + length b"
      by (simp_all add: Index_first)
    then show ?thesis by simp
  qed
  ultimately show ?thesis by (auto simp: LastIndex_def Let_def)
qed

lemma LastIndex_notin: "c \<notin> set s \<Longrightarrow> LastIndex s c = - 1"
  by (simp add: LastIndex_def Index_notin)

lemma LastIndex_last: "c \<notin> set b \<Longrightarrow> LastIndex (a @ c # b) c = int (length a)"
proof -
  assume "c \<notin> set b"
  then have "Index (rev b @ c # rev a) c = int (length b)"
    using Index_first [of c "rev b" "rev a"] by simp
  then show ?thesis by (simp add: LastIndex_def)
qed

lemma below_16: "d < 16 \<Longrightarrow> d \<in> {0, 1, 2, 3, 4, 5, 6, 7, 8, 9, 10, 11, 12, 13, 14, 15 :: nat}"
  by (simp only: insert_iff empty_iff) arith

lemma hexval_hexdigit: "d < 16 \<Longrightarrow> hexval (hexdigit d) = Some d"
  by (drule below_16) (auto simp: hexval_def hexdigit_def digits_def)

lemma hexdigit_ge: "d < 16 \<Longrightarrow> 48 \<le> (of_char (hexdigit d) :: nat)"
  by (drule below_16) (auto simp: hexdigit_def digits_def)

lemma hexdigit_not_special:
  assumes "d < 16"
  shows "hexdigit d \<noteq> CHR ''.''" "hexdigit d \<noteq> CHR ''-''" "hexdigit d \<noteq> CHR ''+''"
    "hexdigit d \<noteq> CHR ''/''"
proof -
  have low: "(of_char c :: nat) < 48 \<Longrightarrow> hexdigit d \<noteq> c" for c
    using hexdigit_ge [OF assms] by auto
  show "hexdigit d \<noteq> CHR ''.''" by (rule low) simp
  show "hexdigit d \<noteq> CHR ''-''" by (rule low) simp
  show "hexdigit d \<noteq> CHR ''+''" by (rule low) simp
  show "hexdigit d \<noteq> CHR ''/''" by (rule low) simp
qed

lemma formatBits_set: "c \<in> set (formatBits n) \<Longrightarrow> \<exists>d<16. c = hexdigit d"
proof (induction n rule: formatBits.induct)
  case (1 n)
  show ?case
  proof (cases "n < 16")
    case True
    with 1 show ?thesis by (subst (asm) formatBits.simps) auto
  next
    case False
    from 1(2) have "c \<in> set (formatBits (n div 16)) \<or> c = hexdigit (n mod 16)"
      using False by (subst (asm) formatBits.simps) auto
    then show ?thesis
    proof
      assume "c \<in> set (formatBits (n div 16))"
      with 1(1) False show ?thesis by simp
    next
      assume "c = hexdigit (n mod 16)"
      then show ?thesis by (intro exI [of _ "n mod 16"]) simp
    qed
  qed
qed

lemma formatBits_nonempty: "formatBits n \<noteq> []"
  by (subst formatBits.simps) simp

lemma formatBits_no_special:
  "CHR ''.'' \<notin> set (formatBits n)" "CHR ''/'' \<notin> set (formatBits n)"
  "hd (formatBits n) \<noteq> CHR ''-''" "hd (formatBits n) \<noteq> CHR ''+''"
proof -
  show "CHR ''.'' \<notin> set (formatBits n)"
  proof
    assume "CHR ''.'' \<in> set (formatBits n)"
    from formatBits_set [OF this] hexdigit_not_special(1) show False by metis
  qed
  show "CHR ''/'' \<notin> set (formatBits n)"
  proof
    assume "CHR ''/'' \<in> set (formatBits n)"
    from formatBits_set [OF this] hexdigit_not_special(4) show False by metis
  qed
  have "hd (formatBits n) \<in> set (formatBits n)" by (simp add: formatBits_nonempty)
  then obtain d where "d < 16" "hd (formatBits n) = hexdigit d" using formatBits_set by blast
  then show "hd (formatBits n) \<noteq> CHR ''-''" "hd (formatBits n) \<noteq> CHR ''+''"
    using hexdigit_not_special by auto
qed

lemma parse_digits_snoc:
  "parse_digits a (xs @ [c]) =
     (case parse_digits a xs of Inl e \<Rightarrow> Inl e | Inr n \<Rightarrow> parse_digits n [c])"
  by (induction xs arbitrary: a) (auto simp: Let_def split: option.splits)

lemma parse_digits_formatBits: "n < 2 ^ 64 \<Longrightarrow> parse_digits 0 (formatBits n) = Inr n"
proof (induction n rule: formatBits.induct)
  case (1 n)
  show ?case
  proof (cases "n < 16")
    case True
    then show ?thesis
      by (subst formatBits.simps) (simp add: hexval_hexdigit)
  next
    case False
    have d: "n div 16 < 2 ^ 60" using 1(2) by simp
    then have "n div 16 < 2 ^ 64" by simp
    with 1(1) False have ih: "parse_digits 0 (formatBits (n div 16)) = Inr (n div 16)" by simp
    have "formatBits n = formatBits (n div 16) @ [hexdigit (n mod 16)]"
      using False by (subst formatBits.simps) simp
    then show ?thesis
      using ih d 1(2) by (simp add: parse_digits_snoc hexval_hexdigit Let_def)
  qed
qed

lemma ParseInt16_FormatInt16:
  assumes "- (2 ^ 63) \<le> p" "p < 2 ^ 63"
  shows "ParseInt16 (FormatInt16 p) = Inr p"
proof (cases "p < 0")
  case True
  then have n: "nat (- p) \<le> 2 ^ 63" using assms by simp
  then have "nat (- p) < 2 ^ 64" by simp
  then have "parse_digits 0 (formatBits (nat (- p))) = Inr (nat (- p))"
    by (rule parse_digits_formatBits)
  then show ?thesis
    using True n by (simp add: ParseInt16_def FormatInt16_def ParseUint16_def formatBits_nonempty)
next
  case False
  then have n: "nat p < 2 ^ 63" using assms by simp
  then have "nat p < 2 ^ 64" by simp
  then have "parse_digits 0 (formatBits (nat p)) = Inr (nat p)"
    by (rule parse_digits_formatBits)
  then show ?thesis
    using False n
    by (simp add: ParseInt16_def FormatInt16_def ParseUint16_def formatBits_nonempty
          formatBits_no_special)
qed

lemma FormatInt16_no_dot: "CHR ''.'' \<notin> set (FormatInt16 p)" "CHR ''/'' \<notin> set (FormatInt16 p)"
  by (auto simp: FormatInt16_def formatBits_no_special)


lemma take_nat_length: "take (nat (int (length xs))) (xs @ ys) = xs"
  by (simp only: nat_int) simp

lemma drop_nat_length: "drop (nat (int (length xs) + 1)) (xs @ y # ys) = ys"
proof -
  have "nat (int (length xs) + 1) = Suc (length xs)" by simp
  then show ?thesis by (simp only:) simp
qed

lemma Workfile_parse:
  assumes a: "CHR ''.'' \<notin> set a" and t: "CHR ''.'' \<notin> set tie'" and sp: "CHR ''.'' \<notin> set sp"
    and p: "ParseInt16 sp = Inr P1"
  shows "Workfile_ParseUniqueFQN P2 (a @ CHR ''.'' # mid @ CHR ''.'' # tie' @ CHR ''.'' # sp)
           = (mid, P1 \<noteq> P2, True)"
proof -
  define rest where "rest = mid @ CHR ''.'' # tie' @ CHR ''.'' # sp"
  define mt where "mt = mid @ CHR ''.'' # tie'"
  have rest: "rest = mt @ CHR ''.'' # sp" by (simp add: rest_def mt_def)
  have i1: "Index (a @ CHR ''.'' # rest) (CHR ''.'') = int (length a)"
    using a by (rule Index_first)
  have d1: "drop (nat (int (length a) + 1)) (a @ CHR ''.'' # rest) = rest"
    by (rule drop_nat_length)
  have i2: "LastIndex rest (CHR ''.'') = int (length mt)"
    unfolding rest using sp by (rule LastIndex_last)
  have t2: "take (nat (int (length mt))) rest = mt"
    unfolding rest by (rule take_nat_length)
  have d2: "drop (nat (int (length mt) + 1)) rest = sp"
    unfolding rest by (rule drop_nat_length)
  have i3: "LastIndex mt (CHR ''.'') = int (length mid)"
    unfolding mt_def using t by (rule LastIndex_last)
  have t3: "take (nat (int (length mid))) rest = mid"
    unfolding rest_def by (rule take_nat_length)
  have "Workfile_ParseUniqueFQN P2 (a @ CHR ''.'' # rest) = (mid, P1 \<noteq> P2, True)"
    unfolding Workfile_ParseUniqueFQN_def Let_def i1 d1 i2 t2 d2 i3 t3 p
    by simp
  then show ?thesis by (simp add: rest_def)
qed

lemma Workfile_parse_dotted:
  assumes x: "CHR ''.'' \<in> set x" and sp: "CHR ''.'' \<notin> set sp" and p: "ParseInt16 sp = Inr P1"
  shows "snd (Workfile_ParseUniqueFQN P2 (x @ CHR ''.'' # tie @ CHR ''.'' # sp)) = (P1 \<noteq> P2, True)"
proof -
  from x obtain a b where ab: "x = a @ CHR ''.'' # b" "CHR ''.'' \<notin> set a"
    by (meson split_list_first)
  have "CHR ''.'' \<in> set (b @ CHR ''.'' # tie)" by simp
  then obtain mid tie' where mt: "b @ CHR ''.'' # tie = mid @ CHR ''.'' # tie'" "CHR ''.'' \<notin> set tie'"
    by (meson split_list_last)
  have "x @ CHR ''.'' # tie @ CHR ''.'' # sp = a @ CHR ''.'' # (b @ CHR ''.'' # tie) @ CHR ''.'' # sp"
    using ab by simp
  also have "\<dots> = a @ CHR ''.'' # (mid @ CHR ''.'' # tie') @ CHR ''.'' # sp"
    by (simp only: mt)
  also have "\<dots> = a @ CHR ''.'' # mid @ CHR ''.'' # tie' @ CHR ''.'' # sp"
    by simp
  finally have eq: "x @ CHR ''.'' # tie @ CHR ''.'' # sp
      = a @ CHR ''.'' # mid @ CHR ''.'' # tie' @ CHR ''.'' # sp" .
  show ?thesis
    unfolding eq using Workfile_parse [OF ab(2) mt(2) sp p, of P2 mid] by simp
qed

lemma Split_nosep: "Separator \<notin> set f \<Longrightarrow> filepath_Split f = ([], f)"
  by (simp add: filepath_Split_def LastIndex_notin)

lemma Split_sep: "Separator \<notin> set f \<Longrightarrow> filepath_Split (d @ Separator # f) = (d @ [Separator], f)"
  by (simp add: filepath_Split_def LastIndex_last nat_add_distrib)

lemma Split_cases:
  obtains (nosep) "Separator \<notin> set p" "filepath_Split p = ([], p)"
  | (sep) d f where "p = d @ Separator # f" "Separator \<notin> set f" "filepath_Split p = (d @ [Separator], f)"
proof (cases "Separator \<in> set p")
  case True
  then obtain d f where "p = d @ Separator # f" "Separator \<notin> set f" by (meson split_list_last)
  then show ?thesis using sep Split_sep by blast
next
  case False
  then show ?thesis using nosep Split_nosep by blast
qed

lemma Split_snd_nosep: "Separator \<notin> set (snd (filepath_Split p))"
  by (cases p rule: Split_cases) auto

lemma Split_append_nosep:
  "Separator \<notin> set t \<Longrightarrow> snd (filepath_Split (s @ t)) = snd (filepath_Split s) @ t"
proof (cases s rule: Split_cases)
  case nosep
  assume "Separator \<notin> set t"
  with nosep show ?thesis by (simp add: Split_nosep)
next
  case (sep d f)
  assume "Separator \<notin> set t"
  with sep have "filepath_Split (d @ Separator # (f @ t)) = (d @ [Separator], f @ t)"
    by (intro Split_sep) simp
  with sep show ?thesis by simp
qed

lemma Split_after_dir:
  assumes "pre = [] \<or> last pre = Separator" "Separator \<notin> set e"
  shows "filepath_Split (pre @ e) = (pre, e)"
proof (cases "pre = []")
  case True
  with assms show ?thesis by (simp add: Split_nosep)
next
  case False
  with assms obtain d where d: "pre = d @ [Separator]" by (metis append_butlast_last_id)
  show ?thesis
    unfolding d using Split_sep [OF assms(2), of d] by simp
qed

lemma split_sep_nonempty: "split_sep p \<noteq> []"
  by (induction p) (auto split: list.splits)

lemma split_sep_nosep: "Separator \<notin> set f \<Longrightarrow> split_sep f = [f]"
  by (induction f) auto

lemma split_sep_append: "split_sep (a @ Separator # b) = split_sep a @ split_sep b"
proof (induction a)
  case Nil
  then show ?case by simp
next
  case (Cons c a)
  then show ?case using split_sep_nonempty [of a] by (auto split: list.splits)
qed

lemma join_sep_snoc:
  "join_sep (out @ [e]) = (if out = [] then e else join_sep out @ Separator # e)"
  by (induction out rule: join_sep.induct) auto

lemma clean_step_real:
  "e \<noteq> [] \<Longrightarrow> e \<noteq> ''.'' \<Longrightarrow> e \<noteq> ''..'' \<Longrightarrow> clean_step rooted out e = out @ [e]"
  by (simp add: clean_step_def)

lemma Clean_last:
  assumes e: "e \<noteq> []" "e \<noteq> ''.''" "e \<noteq> ''..''" "Separator \<notin> set e"
    and p: "snd (filepath_Split p) = e"
  shows "\<exists>pre. filepath_Clean p = pre @ e \<and> (pre = [] \<or> last pre = Separator)"
proof -
  have "\<exists>es. split_sep p = es @ [e]"
  proof (cases p rule: Split_cases)
    case nosep
    with p have "p = e" by simp
    with e show ?thesis by (simp add: split_sep_nosep)
  next
    case (sep d f)
    with p have "p = d @ Separator # e" by simp
    with e show ?thesis by (simp add: split_sep_append split_sep_nosep)
  qed
  then obtain es where es: "split_sep p = es @ [e]" by blast
  have pne: "p \<noteq> []" using p e by (auto simp: filepath_Split_def)
  define rooted where "rooted = (hd p = Separator)"
  define out0 where "out0 = foldl (clean_step rooted) [] es"
  have out: "foldl (clean_step rooted) [] (split_sep p) = out0 @ [e]"
    using e by (simp add: es out0_def clean_step_real)
  show ?thesis
  proof (cases rooted)
    case True
    then have "filepath_Clean p = Separator # join_sep (out0 @ [e])"
      using pne out by (simp add: filepath_Clean_def rooted_def Let_def)
    then have "filepath_Clean p = (if out0 = [] then [Separator] else Separator # join_sep out0 @ [Separator]) @ e"
      by (simp add: join_sep_snoc)
    then show ?thesis
      by (intro exI [of _ "if out0 = [] then [Separator] else Separator # join_sep out0 @ [Separator]"])
         simp
  next
    case False
    then have "filepath_Clean p = join_sep (out0 @ [e])"
      using pne out by (simp add: filepath_Clean_def rooted_def Let_def)
    then have "filepath_Clean p = (if out0 = [] then [] else join_sep out0 @ [Separator]) @ e"
      by (simp add: join_sep_snoc)
    then show ?thesis
      by (intro exI [of _ "if out0 = [] then [] else join_sep out0 @ [Separator]"]) simp
  qed
qed

lemma Join_last:
  assumes e: "e \<noteq> []" "e \<noteq> ''.''" "e \<noteq> ''..''" and x: "snd (filepath_Split x) = e"
  shows "\<exists>pre. filepath_Join dir x = pre @ e \<and> (pre = [] \<or> last pre = Separator)"
proof -
  have ns: "Separator \<notin> set e" using x Split_snd_nosep [of x] by simp
  have xne: "x \<noteq> []" using x e by (auto simp: filepath_Split_def)
  show ?thesis
  proof (cases "dir = []")
    case True
    then have "filepath_Join dir x = filepath_Clean x" using xne by (simp add: filepath_Join_def)
    with Clean_last [OF e ns x] show ?thesis by simp
  next
    case False
    have "snd (filepath_Split (dir @ Separator # x)) = e"
    proof (cases x rule: Split_cases)
      case nosep
      with x have "x = e" by simp
      with ns show ?thesis by (simp add: Split_sep)
    next
      case (sep d f)
      with x have "dir @ Separator # x = (dir @ Separator # d) @ Separator # e" by simp
      then show ?thesis using Split_sep [OF ns, of "dir @ Separator # d"] by simp
    qed
    from Clean_last [OF e ns this] False show ?thesis by (simp add: filepath_Join_def)
  qed
qed

lemma new_name_dotted:
  "CHR ''.'' \<in> set (snd (filepath_Split (prefix @ ''.'' @ snd (filepath_Split base))))"
proof -
  have "Separator \<notin> set (''.'' @ snd (filepath_Split base))"
    using Split_snd_nosep [of base] by (simp add: Separator_def)
  from Split_append_nosep [OF this, of prefix] show ?thesis by simp
qed


lemma HasSuffix_sep: "HasSuffix (d @ [Separator]) ''/''"
  by (simp add: HasSuffix_def Separator_def)

lemma Split_under_dir:
  assumes "last s = Separator" "s \<noteq> []"
  shows "filepath_Split (s @ p) = (s @ fst (filepath_Split p), snd (filepath_Split p))"
proof (cases p rule: Split_cases)
  case nosep
  with Split_after_dir [of s p] assms show ?thesis by simp
next
  case (sep d f)
  have "filepath_Split ((s @ d) @ Separator # f) = ((s @ d) @ [Separator], f)"
    using sep(2) by (rule Split_sep)
  with sep show ?thesis by simp
qed

lemma Split_fst_sep: "fst (filepath_Split p) = [] \<or> last (fst (filepath_Split p)) = Separator"
  by (cases p rule: Split_cases) auto

lemma HasSuffix_last: "d \<noteq> [] \<Longrightarrow> last d = Separator \<Longrightarrow> HasSuffix d ''/''"
  using HasSuffix_sep [of "butlast d"] by (metis append_butlast_last_id)

lemma new_name_real:
  assumes "CHR ''.'' \<notin> set prefix" "fname \<noteq> []" "prefix \<noteq> [] \<or> fname \<noteq> ''.''"
  shows "prefix @ CHR ''.'' # fname \<noteq> []" "prefix @ CHR ''.'' # fname \<noteq> ''.''"
    "prefix @ CHR ''.'' # fname \<noteq> ''..''"
  using assms by (auto simp: append_eq_Cons_conv Cons_eq_append_conv)


lemma HasPrefix_append: "HasPrefix (a @ b) a"
  by (simp add: HasPrefix_def)

lemma HasPrefix_comparable:
  assumes "HasPrefix s a" "HasPrefix s b"
  shows "HasPrefix a b \<or> HasPrefix b a"
proof (cases "length b \<le> length a")
  case True
  have "take (length b) a = take (length b) (take (length a) s)"
    using assms(1) by (simp add: HasPrefix_def)
  also have "\<dots> = take (length b) s" using True by (simp add: min_def)
  also have "\<dots> = b" using assms(2) by (simp add: HasPrefix_def)
  finally show ?thesis by (simp add: HasPrefix_def)
next
  case False
  have "take (length a) b = take (length a) (take (length b) s)"
    using assms(2) by (simp add: HasPrefix_def)
  also have "\<dots> = take (length a) s" using False by (simp add: min_def)
  also have "\<dots> = a" using assms(1) by (simp add: HasPrefix_def)
  finally show ?thesis by (simp add: HasPrefix_def)
qed

lemma find_mpath_own:
  assumes "m0 \<in> set mpaths" "\<forall>mi \<in> set mpaths. nested mi m0 \<longrightarrow> mi = m0"
  shows "find_mpath mpaths (Path m0 @ Separator # rest) = Some m0"
  using assms
proof (induction mpaths)
  case Nil
  then show ?case by simp
next
  case (Cons mi mpaths)
  have own: "HasPrefix (Path m0 @ Separator # rest) (Path m0 @ [Separator])"
    using HasPrefix_append [of "Path m0 @ [Separator]" rest] by simp
  show ?case
  proof (cases "HasPrefix (Path m0 @ Separator # rest) (Path mi @ [Separator])")
    case True
    from HasPrefix_comparable [OF True own] have "nested mi m0" by (auto simp: nested_def)
    with Cons.prems(2) have "mi = m0" by simp
    with True show ?thesis by simp
  next
    case False
    with own have "mi \<noteq> m0" by auto
    with Cons.prems have "m0 \<in> set mpaths" "\<forall>mi \<in> set mpaths. nested mi m0 \<longrightarrow> mi = m0"
      by auto
    from Cons.IH [OF this] False show ?thesis by simp
  qed
qed

lemma join_sep_Cons: "join_sep (e # es) = (if es = [] then e else e @ Separator # join_sep es)"
  by (cases es) auto

lemma join_split: "join_sep (split_sep p) = p"
proof (induction p)
  case Nil
  then show ?case by simp
next
  case (Cons c p)
  obtain e es where s: "split_sep p = e # es" using split_sep_nonempty [of p] by (cases "split_sep p") auto
  with Cons have j: "join_sep (e # es) = p" by simp
  show ?case
  proof (cases "c = Separator")
    case True
    with s j show ?thesis by (simp del: join_sep.simps add: join_sep_Cons [of "[]"])
  next
    case False
    with s j show ?thesis
      by (auto simp del: join_sep.simps simp add: join_sep_Cons split: if_splits)
  qed
qed

lemma foldl_clean_real:
  "\<forall>e \<in> set es. e \<noteq> [] \<and> e \<noteq> ''.'' \<and> e \<noteq> ''..'' \<Longrightarrow>
     foldl (clean_step rooted) acc es = acc @ es"
  by (induction es arbitrary: acc) (simp_all add: clean_step_real)

lemma Join_clean_dir:
  assumes e: "e \<noteq> []" "e \<noteq> ''.''" "e \<noteq> ''..''" "Separator \<notin> set e"
    and c: "clean_dir name"
  shows "filepath_Join (fst (filepath_Split name)) e = fst (filepath_Split name) @ e"
proof (cases name rule: Split_cases)
  case nosep
  have "split_sep e = [e]" using e(4) by (rule split_sep_nosep)
  moreover have "hd e \<noteq> Separator" using e(1,4) by (cases e) auto
  ultimately have "filepath_Clean e = e"
    using e(1,2,3) by (simp add: filepath_Clean_def clean_step_real)
  with nosep e(1) show ?thesis by (simp add: filepath_Join_def)
next
  case (sep d f)
  have sp: "split_sep name = split_sep d @ [f]"
    unfolding sep(1) using sep(2) by (simp add: split_sep_append split_sep_nosep)
  with c have real: "\<forall>x \<in> set (split_sep d). x \<noteq> [] \<and> x \<noteq> ''.'' \<and> x \<noteq> ''..''"
    by (simp add: clean_dir_def)
  have dne: "d \<noteq> []"
  proof
    assume "d = []"
    with real show False by simp
  qed
  have hd: "hd d \<noteq> Separator"
  proof
    assume "hd d = Separator"
    with dne obtain d' where "d = Separator # d'" by (cases d) auto
    then have "[] \<in> set (split_sep d)" by simp
    with real show False by blast
  qed
  define p where "p = (d @ [Separator]) @ Separator # e"
  have "split_sep p = split_sep d @ split_sep (Separator # e)"
    unfolding p_def using split_sep_append [of d "Separator # e"] by simp
  also have "split_sep (Separator # e) = [[], e]"
    using e(4) by (simp add: split_sep_nosep)
  finally have sp2: "split_sep p = split_sep d @ [[], e]" .
  have f: "foldl (clean_step False) [] (split_sep d) = split_sep d"
    using foldl_clean_real [OF real, of False "[]"] by simp
  have "foldl (clean_step False) [] (split_sep p)
      = clean_step False (clean_step False (split_sep d) []) e"
    unfolding sp2 by (simp only: foldl_append foldl.simps f)
  also have "clean_step False (split_sep d) [] = split_sep d" by (simp add: clean_step_def)
  also have "clean_step False (split_sep d) e = split_sep d @ [e]"
    using e(1,2,3) by (rule clean_step_real)
  finally have out: "foldl (clean_step False) [] (split_sep p) = split_sep d @ [e]" .
  have pne: "p \<noteq> []" by (simp add: p_def)
  have "hd p = hd d" using dne by (cases d) (auto simp: p_def)
  with hd have nr: "(hd p = Separator) = False" by simp
  have "filepath_Clean p = join_sep (split_sep d @ [e])"
    unfolding filepath_Clean_def Let_def nr out using pne by simp
  also have "\<dots> = join_sep (split_sep d) @ Separator # e"
    using split_sep_nonempty [of d] by (simp add: join_sep_snoc)
  also have "\<dots> = d @ Separator # e" by (simp only: join_split)
  finally have "filepath_Clean p = d @ Separator # e" .
  then show ?thesis unfolding sep(3) by (simp add: filepath_Join_def p_def)
qed

lemma Split_id: "fst (filepath_Split p) @ snd (filepath_Split p) = p"
  by (simp add: filepath_Split_def Let_def)

section \<open>Properties of the content registry\<close>

lemma FileSpec_unregistered:
  "(case parseFQN fqn of Inl err \<Rightarrow> True | Inr parsedFQN \<Rightarrow> m (ContentType parsedFQN) = None)
   \<Longrightarrow> FileSpec parseFQN m pid fqn = (None, None)"
  by (auto simp: FileSpec_def split: prod.splits sum.splits option.splits)

text \<open>
  C5. \<open>Reg\<close> returns an error exactly for a content type whose length is not 2, or that
  contains the path separator, or that is already in the registry. For every other
  content type it succeeds and stores the resolver, and registering the same content
  type again, with any resolver, then fails.
\<close>

theorem Reg_contract:
  "(isl (Reg m contentType spec) \<longleftrightarrow>
      (length contentType \<noteq> 2 \<or> Separator \<in> set contentType \<or> contentType \<in> dom m))
   \<and> (\<not> isl (Reg m contentType spec) \<longrightarrow>
        Reg m contentType spec = Inr (m(contentType \<mapsto> spec))
        \<and> isl (Reg (m(contentType \<mapsto> spec)) contentType spec'))"
  by (auto simp: Reg_def contentTypeLen_def)

theorem Reg_contract_witness:
  "Reg Map.empty ''wk'' WorkfileContentResolver = Inr [''wk'' \<mapsto> WorkfileContentResolver]
   \<and> isl (Reg [''wk'' \<mapsto> WorkfileContentResolver] ''wk'' ObjectContentResolver)
   \<and> isl (Reg Map.empty ''w'' WorkfileContentResolver)
   \<and> isl (Reg Map.empty ''wrk'' WorkfileContentResolver)
   \<and> isl (Reg Map.empty ''/w'' WorkfileContentResolver)"
  using Reg_contract [of Map.empty "''wk''" WorkfileContentResolver ObjectContentResolver]
    Reg_contract [of Map.empty "''w''" WorkfileContentResolver ObjectContentResolver]
    Reg_contract [of Map.empty "''wrk''" WorkfileContentResolver ObjectContentResolver]
    Reg_contract [of Map.empty "''/w''" WorkfileContentResolver ObjectContentResolver]
  by (simp add: Separator_def)

text \<open>
  C10. \<open>Gen\<close> has a result exactly under the precondition that the content type is
  registered. For a registered content type the result is the FQN that the mountpath
  makes of the bucket, the content type and the name generated by the registered
  resolver; for a content type that is not in the registry the lookup, that of
  \<open>Resolver\<close>, gives the nil resolver and the call of its method panics.
\<close>

theorem Gen_needs_registered:
  "(contentType \<in> dom m \<longrightarrow>
      (\<exists>spec. m contentType = Some spec
         \<and> Gen m tie pid parts contentType prefix =
             Inr (MakePathFQN (Mountpath parts) (Bucket parts) contentType
                    (GenUniqueFQN tie pid spec (ObjectName parts) prefix))))
   \<and> (contentType \<notin> dom m \<longrightarrow>
        Resolver m contentType = None
        \<and> Gen m tie pid parts contentType prefix = Inl NilDereference)"
  by (auto simp: Gen_def Resolver_def split: option.splits)

theorem Gen_needs_registered_witness:
  "Gen [''ob'' \<mapsto> ObjectContentResolver] ''t1'' 255
       \<lparr>ObjectName = ''a/b'', Bucket = \<lparr>Name = ''bck''\<rparr>, Mountpath = \<lparr>Path = ''/mp''\<rparr>, CacheIdx = 0\<rparr>
       ''ob'' [] = Inr ''/mp/bck/ob/a/b''
   \<and> Gen [''ob'' \<mapsto> ObjectContentResolver] ''t1'' 255
       \<lparr>ObjectName = ''a/b'', Bucket = \<lparr>Name = ''bck''\<rparr>, Mountpath = \<lparr>Path = ''/mp''\<rparr>, CacheIdx = 0\<rparr>
       ''wk'' [] = Inl NilDereference"
  using Gen_needs_registered [of "''ob''" "[''ob'' \<mapsto> ObjectContentResolver]" "''t1''" 255
      "\<lparr>ObjectName = ''a/b'', Bucket = \<lparr>Name = ''bck''\<rparr>, Mountpath = \<lparr>Path = ''/mp''\<rparr>, CacheIdx = 0\<rparr>" "[]"]
    Gen_needs_registered [of "''wk''" "[''ob'' \<mapsto> ObjectContentResolver]" "''t1''" 255
      "\<lparr>ObjectName = ''a/b'', Bucket = \<lparr>Name = ''bck''\<rparr>, Mountpath = \<lparr>Path = ''/mp''\<rparr>, CacheIdx = 0\<rparr>" "[]"]
  by (simp add: MakePathFQN_def Separator_def)

text \<open>
  C8. When the directory part of the path does not end with the separator, or the
  basename is empty, or the content type is not recognised (\<open>ParseFQN\<close> fails, or the
  content type it finds is not registered), \<open>FileSpec\<close> returns a nil resolver and a nil
  info. It has no error result, and no step on these paths can panic: the function
  returns before it touches a resolver.
\<close>

theorem FileSpec_absent:
  assumes "\<not> HasSuffix (fst (filepath_Split fqn)) ''/'' \<or> snd (filepath_Split fqn) = []
           \<or> (case parseFQN fqn of Inl err \<Rightarrow> True
               | Inr parsedFQN \<Rightarrow> m (ContentType parsedFQN) = None)"
  shows "FileSpec parseFQN m pid fqn = (None, None)"
  using assms by (auto simp: FileSpec_def split: prod.splits sum.splits option.splits)

theorem FileSpec_absent_witness:
  "FileSpec (ParseFQN [\<lparr>Path = ''/mp''\<rparr>]) [''ob'' \<mapsto> ObjectContentResolver] 255 ''obj'' = (None, None)
   \<and> FileSpec (ParseFQN [\<lparr>Path = ''/mp''\<rparr>]) [''ob'' \<mapsto> ObjectContentResolver] 255 ''/mp/bck/ob/'' = (None, None)
   \<and> ParseFQN [\<lparr>Path = ''/mp''\<rparr>] ''/mp/bck/zz/a'' =
       Inr \<lparr>MpathInfo = \<lparr>Path = ''/mp''\<rparr>, ContentType = ''zz'', ParsedBck = \<lparr>Name = ''bck''\<rparr>, ObjName = ''a''\<rparr>
   \<and> FileSpec (ParseFQN [\<lparr>Path = ''/mp''\<rparr>]) [''ob'' \<mapsto> ObjectContentResolver] 255 ''/mp/bck/zz/a'' = (None, None)"
proof -
  have 1: "\<not> HasSuffix (fst (filepath_Split ''obj'')) ''/''"
    by (simp add: filepath_Split_def LastIndex_def HasSuffix_def Separator_def)
  have 2: "snd (filepath_Split ''/mp/bck/ob/'') = []"
    by (simp add: filepath_Split_def LastIndex_def Separator_def)
  have 3: "ParseFQN [\<lparr>Path = ''/mp''\<rparr>] ''/mp/bck/zz/a'' =
       Inr \<lparr>MpathInfo = \<lparr>Path = ''/mp''\<rparr>, ContentType = ''zz'', ParsedBck = \<lparr>Name = ''bck''\<rparr>, ObjName = ''a''\<rparr>"
    by (simp add: ParseFQN_def HasPrefix_def cut_sep_def Separator_def)
  show ?thesis
    using FileSpec_absent [where fqn = "''obj''" and parseFQN = "ParseFQN [\<lparr>Path = ''/mp''\<rparr>]"
        and m = "[''ob'' \<mapsto> ObjectContentResolver]" and pid = 255]
      FileSpec_absent [where fqn = "''/mp/bck/ob/''" and parseFQN = "ParseFQN [\<lparr>Path = ''/mp''\<rparr>]"
        and m = "[''ob'' \<mapsto> ObjectContentResolver]" and pid = 255]
      FileSpec_absent [where fqn = "''/mp/bck/zz/a''" and parseFQN = "ParseFQN [\<lparr>Path = ''/mp''\<rparr>]"
        and m = "[''ob'' \<mapsto> ObjectContentResolver]" and pid = 255]
      1 2 3
    by simp
qed

text \<open>
  C6. For an FQN whose content type is not registered, and for any FQN that \<open>FileSpec\<close>
  cannot decode, \<open>PermToEvict\<close> of the registry returns true (with the old flag false),
  and \<open>PermToMove\<close> and \<open>PermToProcess\<close> return false.
\<close>

theorem PermTo_defaults:
  assumes "(case parseFQN fqn of Inl err \<Rightarrow> True
            | Inr parsedFQN \<Rightarrow> m (ContentType parsedFQN) = None)
           \<or> fst (FileSpec parseFQN m pid fqn) = None"
  shows "CSM_PermToEvict parseFQN m pid fqn = Inr (True, False)
         \<and> CSM_PermToMove parseFQN m pid fqn = False
         \<and> CSM_PermToProcess parseFQN m pid fqn = False"
proof -
  have "fst (FileSpec parseFQN m pid fqn) = None"
    using assms
      FileSpec_unregistered [where parseFQN = parseFQN and fqn = fqn and m = m and pid = pid]
    by auto
  then show ?thesis
    by (auto simp: CSM_PermToEvict_def CSM_PermToMove_def CSM_PermToProcess_def
             split: prod.splits option.splits)
qed

theorem PermTo_defaults_witness:
  "ParseFQN [\<lparr>Path = ''/mp''\<rparr>] ''/mp/bck/zz/a'' =
       Inr \<lparr>MpathInfo = \<lparr>Path = ''/mp''\<rparr>, ContentType = ''zz'', ParsedBck = \<lparr>Name = ''bck''\<rparr>, ObjName = ''a''\<rparr>
   \<and> CSM_PermToEvict (ParseFQN [\<lparr>Path = ''/mp''\<rparr>]) [''ob'' \<mapsto> ObjectContentResolver] 255 ''/mp/bck/zz/a''
       = Inr (True, False)
   \<and> CSM_PermToMove (ParseFQN [\<lparr>Path = ''/mp''\<rparr>]) [''ob'' \<mapsto> ObjectContentResolver] 255 ''/mp/bck/zz/a'' = False
   \<and> CSM_PermToProcess (ParseFQN [\<lparr>Path = ''/mp''\<rparr>]) [''ob'' \<mapsto> ObjectContentResolver] 255 ''/mp/bck/zz/a'' = False"
proof -
  have 3: "ParseFQN [\<lparr>Path = ''/mp''\<rparr>] ''/mp/bck/zz/a'' =
       Inr \<lparr>MpathInfo = \<lparr>Path = ''/mp''\<rparr>, ContentType = ''zz'', ParsedBck = \<lparr>Name = ''bck''\<rparr>, ObjName = ''a''\<rparr>"
    by (simp add: ParseFQN_def HasPrefix_def cut_sep_def Separator_def)
  show ?thesis
    using PermTo_defaults [where fqn = "''/mp/bck/zz/a''" and parseFQN = "ParseFQN [\<lparr>Path = ''/mp''\<rparr>]"
        and m = "[''ob'' \<mapsto> ObjectContentResolver]" and pid = 255] 3
    by simp
qed

text \<open>
  The modelled \<open>ParseFQN\<close> takes apart what the modelled \<open>MakePathFQN\<close> puts together,
  for a mountpath of the list that is nested with no other one, a bucket name and a
  content type that are not empty and hold no separator, and an object name that is not
  empty.
\<close>

lemma cut_sep_first:
  "Separator \<notin> set a \<Longrightarrow> cut_sep (a @ Separator # b) = Some (a, b)"
proof -
  assume "Separator \<notin> set a"
  then have i: "Index (a @ Separator # b) Separator = int (length a)" by (rule Index_first)
  have "nat (int (length a) + 1) = Suc (length a)" by simp
  then show ?thesis unfolding cut_sep_def Let_def i by (simp only:) simp
qed

lemma ParseFQN_MakePathFQN:
  assumes "mi \<in> set mpaths" "\<forall>mj \<in> set mpaths. nested mj mi \<longrightarrow> mj = mi"
    and "Name bck \<noteq> []" "Separator \<notin> set (Name bck)"
    and "contentType \<noteq> []" "Separator \<notin> set contentType" and "objName \<noteq> []"
  shows "ParseFQN mpaths (MakePathFQN mi bck contentType objName) =
           Inr \<lparr>MpathInfo = mi, ContentType = contentType, ParsedBck = bck, ObjName = objName\<rparr>"
proof -
  have 1: "find_mpath mpaths (MakePathFQN mi bck contentType objName) = Some mi"
    unfolding MakePathFQN_def using assms(1,2) by (rule find_mpath_own)
  have 2: "drop (length (Path mi) + 1) (MakePathFQN mi bck contentType objName)
      = Name bck @ Separator # contentType @ Separator # objName"
    by (simp add: MakePathFQN_def)
  have 3: "cut_sep (Name bck @ Separator # contentType @ Separator # objName)
      = Some (Name bck, contentType @ Separator # objName)"
    using assms(4) by (rule cut_sep_first)
  have 4: "cut_sep (contentType @ Separator # objName) = Some (contentType, objName)"
    using assms(6) by (rule cut_sep_first)
  show ?thesis
    using assms(3,5,7) 1 2 3 4 by (simp add: ParseFQN_def)
qed

text \<open>
  C7, amended. A workfile name is generated under the process id P1, an \<open>int64\<close>, from
  a base and a prefix such that the new file name (the prefix, a dot, the file name of
  the base) does not end in the path element \<open>.\<close> or \<open>..\<close>; this holds whenever the file
  name of the base is neither empty nor a single dot. Decoded under the process id
  P2, the name is accepted and the old flag is true exactly when P2 differs from P1.
  This holds for the generated name as a whole and, when the tie breaker contains no
  separator, for its basename, which is what \<open>FileSpec\<close> hands to the resolver.
\<close>

theorem workfile_old_flag:
  assumes P1: "- (2 ^ 63) \<le> P1" "P1 < 2 ^ 63"
    and name: "snd (filepath_Split (prefix @ ''.'' @ snd (filepath_Split base))) \<notin> {''.'', ''..''}"
  shows "snd (Workfile_ParseUniqueFQN P2 (Workfile_GenUniqueFQN tie P1 base prefix)) = (P1 \<noteq> P2, True)
    \<and> (Separator \<notin> set tie \<longrightarrow>
         snd (Workfile_ParseUniqueFQN P2 (snd (filepath_Split (Workfile_GenUniqueFQN tie P1 base prefix))))
           = (P1 \<noteq> P2, True))"
proof -
  define fname where "fname = snd (filepath_Split base)"
  define dir where "dir = fst (filepath_Split base)"
  define e where "e = snd (filepath_Split (prefix @ ''.'' @ fname))"
  have dot: "CHR ''.'' \<in> set e" unfolding e_def fname_def by (rule new_name_dotted)
  then have e: "e \<noteq> []" "e \<noteq> ''.''" "e \<noteq> ''..''"
    using name by (auto simp: e_def fname_def)
  have ns: "Separator \<notin> set e" unfolding e_def by (rule Split_snd_nosep)
  from Join_last [OF e, of "prefix @ ''.'' @ fname" dir] obtain pre where
    pre: "filepath_Join dir (prefix @ ''.'' @ fname) = pre @ e" "pre = [] \<or> last pre = Separator"
    by (auto simp: e_def)
  have gen: "Workfile_GenUniqueFQN tie P1 base prefix
      = (pre @ e) @ CHR ''.'' # tie @ CHR ''.'' # FormatInt16 P1"
    using pre(1) by (simp add: Workfile_GenUniqueFQN_def spid_def dir_def fname_def case_prod_beta)
  have sp: "CHR ''.'' \<notin> set (FormatInt16 P1)" by (rule FormatInt16_no_dot)
  have p: "ParseInt16 (FormatInt16 P1) = Inr P1" using P1 by (rule ParseInt16_FormatInt16)
  have 1: "snd (Workfile_ParseUniqueFQN P2 (Workfile_GenUniqueFQN tie P1 base prefix)) = (P1 \<noteq> P2, True)"
    unfolding gen using dot by (intro Workfile_parse_dotted [OF _ sp p]) simp
  have 2: "snd (Workfile_ParseUniqueFQN P2 (snd (filepath_Split (Workfile_GenUniqueFQN tie P1 base prefix))))
           = (P1 \<noteq> P2, True)" if t: "Separator \<notin> set tie"
  proof -
    have "Separator \<notin> set (e @ CHR ''.'' # tie @ CHR ''.'' # FormatInt16 P1)"
      using ns t FormatInt16_no_dot(2) [of P1] by (simp add: Separator_def)
    from Split_after_dir [OF pre(2) this]
    have "snd (filepath_Split (Workfile_GenUniqueFQN tie P1 base prefix))
        = e @ CHR ''.'' # tie @ CHR ''.'' # FormatInt16 P1"
      by (simp add: gen)
    then show ?thesis using Workfile_parse_dotted [OF dot sp p, of P2 tie] by simp
  qed
  from 1 2 show ?thesis by simp
qed

theorem workfile_old_flag_witness:
  "Workfile_GenUniqueFQN ''t1'' 255 ''a/b.txt'' ''put'' = ''a/put.b.txt.t1.ff''
   \<and> Workfile_ParseUniqueFQN 255 ''a/put.b.txt.t1.ff'' = (''b.txt'', False, True)
   \<and> Workfile_ParseUniqueFQN 4660 ''a/put.b.txt.t1.ff'' = (''b.txt'', True, True)
   \<and> Workfile_ParseUniqueFQN 4660 ''put.b.txt.t1.ff'' = (''b.txt'', True, True)"
proof -
  have g: "Workfile_GenUniqueFQN ''t1'' 255 ''a/b.txt'' ''put'' = ''a/put.b.txt.t1.ff''"
    by (simp add: Workfile_GenUniqueFQN_def filepath_Split_def LastIndex_def Separator_def
        filepath_Join_def filepath_Clean_def clean_step_def spid_def FormatInt16_def formatBits.simps hexdigit_def digits_def)
  have n: "snd (filepath_Split (''put'' @ ''.'' @ snd (filepath_Split ''a/b.txt''))) \<notin> {''.'', ''..''}"
    by (simp add: filepath_Split_def LastIndex_def Separator_def)
  have s: "snd (filepath_Split ''a/put.b.txt.t1.ff'') = ''put.b.txt.t1.ff''"
    by (simp add: filepath_Split_def LastIndex_def Separator_def)
  have r: "(- (2 ^ 63) :: int) \<le> 255" "(255 :: int) < 2 ^ 63" by simp_all
  have 1: "Workfile_ParseUniqueFQN 255 ''a/put.b.txt.t1.ff'' = (''b.txt'', False, True)"
    by (simp add: Workfile_ParseUniqueFQN_def LastIndex_def ParseInt16_def ParseUint16_def hexval_def)
  have 2: "fst (Workfile_ParseUniqueFQN 4660 ''a/put.b.txt.t1.ff'') = ''b.txt''"
    by (simp add: Workfile_ParseUniqueFQN_def LastIndex_def ParseInt16_def ParseUint16_def hexval_def)
  have 3: "fst (Workfile_ParseUniqueFQN 4660 ''put.b.txt.t1.ff'') = ''b.txt''"
    by (simp add: Workfile_ParseUniqueFQN_def LastIndex_def ParseInt16_def ParseUint16_def hexval_def)
  from workfile_old_flag [OF r n, of 4660 "''t1''"] g s 1 2 3
  show ?thesis by (simp add: Separator_def prod_eq_iff)
qed

text \<open>
  The claim as it stands, for any base and prefix, fails for the base \<open>a/\<close> with the
  empty prefix: the new file name is a single dot, which \<open>filepath.Join\<close> cleans away,
  the generated name \<open>a.t1.1\<close> has too few dots to be decoded, and the old flag is
  false although the decoding process is another one.
\<close>

theorem workfile_old_flag_counterexample:
  "Workfile_GenUniqueFQN ''t1'' 1 ''a/'' [] = ''a.t1.1''
   \<and> Workfile_ParseUniqueFQN 2 (Workfile_GenUniqueFQN ''t1'' 1 ''a/'' []) = ([], False, False)
   \<and> (1 :: int) \<noteq> 2"
  by (simp add: Workfile_GenUniqueFQN_def filepath_Split_def LastIndex_def Separator_def
        filepath_Join_def filepath_Clean_def clean_step_def spid_def FormatInt16_def formatBits.simps hexdigit_def digits_def
        Workfile_ParseUniqueFQN_def)

text \<open>
  C1, amended. The content type is registered, with the length and without the
  separator that \<open>Reg\<close> demands; the bucket name is not empty and holds no separator; the
  mountpath of the object is one of the mountpaths that \<open>ParseFQN\<close> knows and nested with
  no other of them; the file name of the object name (what follows its last separator)
  is not empty. For a workfile, moreover, the process id of the generator is an
  \<open>int64\<close>, neither prefix nor tie breaker contains a dot or a separator, and the file
  name is not a single dot under an empty prefix. Then \<open>Gen\<close> returns an FQN, and
  \<open>FileSpec\<close> of it, in a process with any id, returns the registered resolver and an
  info in which \<open>Type\<close> is the content type; \<open>Base\<close> is the file name of the object name,
  which is the object name itself when that contains no separator; \<open>Old\<close> is true exactly
  for a workfile read under another process id than the one that generated it; and
  \<open>Dir\<close> is the path the mountpath makes of bucket, content type and the directory part
  of the generated name. For the three content types that keep the name, and for a
  workfile whose object name has a clean directory part, this directory part followed
  by \<open>Base\<close> is the object name: directory and basename together recover it.
\<close>

theorem Gen_FileSpec_roundtrip:
  assumes reg: "m contentType = Some spec"
    and ct: "length contentType = contentTypeLen" "Separator \<notin> set contentType"
    and bck: "Name (Bucket parts) \<noteq> []" "Separator \<notin> set (Name (Bucket parts))"
    and mp: "Mountpath parts \<in> set mpaths"
      "\<forall>mi \<in> set mpaths. nested mi (Mountpath parts) \<longrightarrow> mi = Mountpath parts"
    and name: "snd (filepath_Split (ObjectName parts)) \<noteq> []"
    and wk: "spec = WorkfileContentResolver \<longrightarrow>
        - (2 ^ 63) \<le> pidGen \<and> pidGen < 2 ^ 63
        \<and> CHR ''.'' \<notin> set prefix \<and> Separator \<notin> set prefix
        \<and> CHR ''.'' \<notin> set tie \<and> Separator \<notin> set tie
        \<and> (prefix \<noteq> [] \<or> snd (filepath_Split (ObjectName parts)) \<noteq> ''.'')"
  shows "\<exists>fqn dir. Gen m tie pidGen parts contentType prefix = Inr fqn
    \<and> FileSpec (ParseFQN mpaths) m pidRead fqn =
        (Some spec,
         Some \<lparr>Dir = MakePathFQN (Mountpath parts) (Bucket parts) contentType dir,
               Base = snd (filepath_Split (ObjectName parts)),
               Type = contentType,
               Old = (spec = WorkfileContentResolver \<and> pidGen \<noteq> pidRead)\<rparr>)
    \<and> dir = fst (filepath_Split (GenUniqueFQN tie pidGen spec (ObjectName parts) prefix))
    \<and> (spec \<noteq> WorkfileContentResolver \<or> clean_dir (ObjectName parts) \<longrightarrow>
         dir @ snd (filepath_Split (ObjectName parts)) = ObjectName parts)
    \<and> (Separator \<notin> set (ObjectName parts) \<longrightarrow>
         snd (filepath_Split (ObjectName parts)) = ObjectName parts)"
proof -
  define s where "s = Path (Mountpath parts) @ Separator # Name (Bucket parts) @ Separator # contentType @ [Separator]"
  define objName where "objName = GenUniqueFQN tie pidGen spec (ObjectName parts) prefix"
  define fname where "fname = snd (filepath_Split (ObjectName parts))"
  define odir where "odir = fst (filepath_Split (ObjectName parts))"
  define fqn where "fqn = MakePathFQN (Mountpath parts) (Bucket parts) contentType objName"
  have gen: "Gen m tie pidGen parts contentType prefix = Inr fqn"
    using reg by (simp add: Gen_def fqn_def objName_def)
  have fqn: "fqn = s @ objName" by (simp add: fqn_def MakePathFQN_def s_def)
  have s: "last s = Separator" "s \<noteq> []" by (simp_all add: s_def)
  have split: "filepath_Split fqn = (s @ fst (filepath_Split objName), snd (filepath_Split objName))"
    unfolding fqn using s by (rule Split_under_dir)
  have dir: "s @ fst (filepath_Split objName)
      = MakePathFQN (Mountpath parts) (Bucket parts) contentType (fst (filepath_Split objName))"
    by (simp add: MakePathFQN_def s_def)
  have suffix: "HasSuffix (s @ fst (filepath_Split objName)) ''/''"
    using s Split_fst_sep [of objName] by (intro HasSuffix_last) (auto simp: last_append)
  have decode: "snd (filepath_Split objName) \<noteq> [] \<and>
      ParseUniqueFQN pidRead spec (snd (filepath_Split objName))
        = (fname, spec = WorkfileContentResolver \<and> pidGen \<noteq> pidRead, True)
      \<and> (spec \<noteq> WorkfileContentResolver \<or> clean_dir (ObjectName parts) \<longrightarrow>
           fst (filepath_Split objName) = odir)"
  proof (cases "spec = WorkfileContentResolver")
    case False
    then have "objName = ObjectName parts" unfolding objName_def by (cases spec) auto
    with False name show ?thesis unfolding fname_def odir_def by (cases spec) auto
  next
    case True
    with wk have pid: "- (2 ^ 63) \<le> pidGen" "pidGen < 2 ^ 63"
      and pre: "CHR ''.'' \<notin> set prefix" "Separator \<notin> set prefix"
      and tie: "CHR ''.'' \<notin> set tie" "Separator \<notin> set tie"
      and nd: "prefix \<noteq> [] \<or> fname \<noteq> ''.''" by (auto simp: fname_def)
    define e where "e = prefix @ CHR ''.'' # fname"
    have fn: "Separator \<notin> set fname" unfolding fname_def by (rule Split_snd_nosep)
    have ns: "Separator \<notin> set e" using pre fn by (simp add: e_def Separator_def)
    have e: "e \<noteq> []" "e \<noteq> ''.''" "e \<noteq> ''..''"
      unfolding e_def using new_name_real [OF pre(1) _ nd] name by (auto simp: fname_def)
    have "snd (filepath_Split (prefix @ ''.'' @ fname)) = e"
      using ns by (simp add: e_def Split_nosep)
    from Join_last [OF e this, of odir] obtain d where
      d: "filepath_Join odir (prefix @ ''.'' @ fname) = d @ e"
        "d = [] \<or> last d = Separator" by blast
    have o: "objName = d @ (e @ CHR ''.'' # tie @ CHR ''.'' # FormatInt16 pidGen)"
      using True d(1)
      by (simp add: objName_def Workfile_GenUniqueFQN_def spid_def fname_def odir_def case_prod_beta)
    have "Separator \<notin> set (e @ CHR ''.'' # tie @ CHR ''.'' # FormatInt16 pidGen)"
      using ns tie FormatInt16_no_dot(2) [of pidGen] by (simp add: Separator_def)
    from Split_after_dir [OF d(2) this]
    have sp: "filepath_Split objName = (d, e @ CHR ''.'' # tie @ CHR ''.'' # FormatInt16 pidGen)"
      by (simp add: o)
    then have b: "snd (filepath_Split objName)
        = prefix @ CHR ''.'' # fname @ CHR ''.'' # tie @ CHR ''.'' # FormatInt16 pidGen"
      by (simp add: e_def)
    have "Workfile_ParseUniqueFQN pidRead
            (prefix @ CHR ''.'' # fname @ CHR ''.'' # tie @ CHR ''.'' # FormatInt16 pidGen)
        = (fname, pidGen \<noteq> pidRead, True)"
      using pre(1) tie(1) FormatInt16_no_dot(1) ParseInt16_FormatInt16 [OF pid]
      by (rule Workfile_parse)
    moreover have "d = odir" if "clean_dir (ObjectName parts)"
    proof -
      from Join_clean_dir [OF e ns that] have "d @ e = odir @ e"
        using d(1) by (simp add: odir_def e_def)
      then show ?thesis by simp
    qed
    ultimately show ?thesis using b sp True by simp
  qed
  have parse: "ParseFQN mpaths fqn = Inr \<lparr>MpathInfo = Mountpath parts, ContentType = contentType,
      ParsedBck = Bucket parts, ObjName = objName\<rparr>"
    unfolding fqn_def
  proof (rule ParseFQN_MakePathFQN [OF mp bck _ ct(2)])
    show "contentType \<noteq> []" using ct(1) by (auto simp: contentTypeLen_def)
    show "objName \<noteq> []" using decode by (auto simp: filepath_Split_def)
  qed
  have main: "FileSpec (ParseFQN mpaths) m pidRead fqn =
      (Some spec,
       Some \<lparr>Dir = MakePathFQN (Mountpath parts) (Bucket parts) contentType (fst (filepath_Split objName)),
             Base = fname, Type = contentType,
             Old = (spec = WorkfileContentResolver \<and> pidGen \<noteq> pidRead)\<rparr>)"
    using decode suffix parse reg
    by (simp add: FileSpec_def split dir)
  have whole: "fst (filepath_Split objName) @ fname = ObjectName parts"
    if "spec \<noteq> WorkfileContentResolver \<or> clean_dir (ObjectName parts)"
    using that decode Split_id [of "ObjectName parts"] by (simp add: odir_def fname_def)
  have plain: "fname = ObjectName parts" if "Separator \<notin> set (ObjectName parts)"
    using that by (simp add: fname_def Split_nosep)
  show ?thesis
  proof (intro exI conjI impI)
    show "Gen m tie pidGen parts contentType prefix = Inr fqn" by (rule gen)
    show "FileSpec (ParseFQN mpaths) m pidRead fqn =
      (Some spec,
       Some \<lparr>Dir = MakePathFQN (Mountpath parts) (Bucket parts) contentType (fst (filepath_Split objName)),
             Base = snd (filepath_Split (ObjectName parts)), Type = contentType,
             Old = (spec = WorkfileContentResolver \<and> pidGen \<noteq> pidRead)\<rparr>)"
      using main by (simp add: fname_def)
    show "fst (filepath_Split objName)
        = fst (filepath_Split (GenUniqueFQN tie pidGen spec (ObjectName parts) prefix))"
      by (simp add: objName_def)
    show "fst (filepath_Split objName) @ snd (filepath_Split (ObjectName parts)) = ObjectName parts"
      if "spec \<noteq> WorkfileContentResolver \<or> clean_dir (ObjectName parts)"
      using whole [OF that] by (simp add: fname_def)
    show "snd (filepath_Split (ObjectName parts)) = ObjectName parts"
      if "Separator \<notin> set (ObjectName parts)"
      using plain [OF that] by (simp add: fname_def)
  qed
qed

theorem Gen_FileSpec_roundtrip_witness:
  "Gen [''ob'' \<mapsto> ObjectContentResolver, ''wk'' \<mapsto> WorkfileContentResolver] ''t1'' 255
       \<lparr>ObjectName = ''a/b.txt'', Bucket = \<lparr>Name = ''bck''\<rparr>, Mountpath = \<lparr>Path = ''/mp''\<rparr>, CacheIdx = 0\<rparr>
       ''wk'' ''put'' = Inr ''/mp/bck/wk/a/put.b.txt.t1.ff''
   \<and> FileSpec (ParseFQN [\<lparr>Path = ''/data''\<rparr>, \<lparr>Path = ''/mp''\<rparr>])
        [''ob'' \<mapsto> ObjectContentResolver, ''wk'' \<mapsto> WorkfileContentResolver] 4660
        ''/mp/bck/wk/a/put.b.txt.t1.ff''
       = (Some WorkfileContentResolver,
          Some \<lparr>Dir = ''/mp/bck/wk/a/'', Base = ''b.txt'', Type = ''wk'', Old = True\<rparr>)
   \<and> ''a/'' @ ''b.txt'' = ObjectName \<lparr>ObjectName = ''a/b.txt'', Bucket = \<lparr>Name = ''bck''\<rparr>,
                                         Mountpath = \<lparr>Path = ''/mp''\<rparr>, CacheIdx = 0\<rparr>"
proof -
  let ?m = "[''ob'' \<mapsto> ObjectContentResolver, ''wk'' \<mapsto> WorkfileContentResolver]"
  let ?parts = "\<lparr>ObjectName = ''a/b.txt'', Bucket = \<lparr>Name = ''bck''\<rparr>,
                 Mountpath = \<lparr>Path = ''/mp''\<rparr>, CacheIdx = 0\<rparr>"
  let ?mpaths = "[\<lparr>Path = ''/data''\<rparr>, \<lparr>Path = ''/mp''\<rparr>]"
  have reg: "?m ''wk'' = Some WorkfileContentResolver" by simp
  have ct: "length ''wk'' = contentTypeLen" "Separator \<notin> set ''wk''"
    by (simp_all add: contentTypeLen_def Separator_def)
  have bck: "Name (Bucket ?parts) \<noteq> []" "Separator \<notin> set (Name (Bucket ?parts))"
    by (simp_all add: Separator_def)
  have mp: "Mountpath ?parts \<in> set ?mpaths"
    "\<forall>mi \<in> set ?mpaths. nested mi (Mountpath ?parts) \<longrightarrow> mi = Mountpath ?parts"
    by (simp_all add: nested_def HasPrefix_def Separator_def)
  have sp: "filepath_Split ''a/b.txt'' = (''a/'', ''b.txt'')"
    by (simp add: filepath_Split_def LastIndex_def Separator_def)
  have name: "snd (filepath_Split (ObjectName ?parts)) \<noteq> []"
    by (simp add: sp)
  have wk: "WorkfileContentResolver = WorkfileContentResolver \<longrightarrow>
        - (2 ^ 63) \<le> (255 :: int) \<and> (255 :: int) < 2 ^ 63
        \<and> CHR ''.'' \<notin> set ''put'' \<and> Separator \<notin> set ''put''
        \<and> CHR ''.'' \<notin> set ''t1'' \<and> Separator \<notin> set ''t1''
        \<and> (''put'' \<noteq> [] \<or> snd (filepath_Split (ObjectName ?parts)) \<noteq> ''.'')"
    by (simp add: Separator_def)
  have gen: "Gen ?m ''t1'' 255 ?parts ''wk'' ''put'' = Inr ''/mp/bck/wk/a/put.b.txt.t1.ff''"
    by (simp add: Gen_def MakePathFQN_def Workfile_GenUniqueFQN_def filepath_Split_def
          LastIndex_def Separator_def filepath_Join_def filepath_Clean_def clean_step_def
          spid_def FormatInt16_def formatBits.simps hexdigit_def digits_def)
  have gname: "GenUniqueFQN ''t1'' 255 WorkfileContentResolver (ObjectName ?parts) ''put''
      = ''a/put.b.txt.t1.ff''"
    by (simp add: Workfile_GenUniqueFQN_def filepath_Split_def
          LastIndex_def Separator_def filepath_Join_def filepath_Clean_def clean_step_def
          spid_def FormatInt16_def formatBits.simps hexdigit_def digits_def)
  have gsp: "filepath_Split ''a/put.b.txt.t1.ff'' = (''a/'', ''put.b.txt.t1.ff'')"
    by (simp add: filepath_Split_def LastIndex_def Separator_def)
  from Gen_FileSpec_roundtrip [where m = ?m and contentType = "''wk''"
      and spec = WorkfileContentResolver and tie = "''t1''" and pidGen = 255 and pidRead = 4660
      and parts = ?parts and prefix = "''put''" and mpaths = ?mpaths,
      OF reg ct bck mp name wk]
  obtain fqn dir where
    r: "Gen ?m ''t1'' 255 ?parts ''wk'' ''put'' = Inr fqn"
      "FileSpec (ParseFQN ?mpaths) ?m 4660 fqn =
        (Some WorkfileContentResolver,
         Some \<lparr>Dir = MakePathFQN (Mountpath ?parts) (Bucket ?parts) ''wk'' dir,
               Base = snd (filepath_Split (ObjectName ?parts)),
               Type = ''wk'',
               Old = (WorkfileContentResolver = WorkfileContentResolver \<and> (255 :: int) \<noteq> 4660)\<rparr>)"
      "dir = fst (filepath_Split (GenUniqueFQN ''t1'' 255 WorkfileContentResolver (ObjectName ?parts) ''put''))"
    by blast
  from r(1) gen have f: "fqn = ''/mp/bck/wk/a/put.b.txt.t1.ff''" by simp
  from r(3) have d: "dir = ''a/''" by (simp only: gname gsp fst_conv)
  from r(2) have "FileSpec (ParseFQN ?mpaths) ?m 4660 ''/mp/bck/wk/a/put.b.txt.t1.ff''
       = (Some WorkfileContentResolver,
          Some \<lparr>Dir = ''/mp/bck/wk/a/'', Base = ''b.txt'', Type = ''wk'', Old = True\<rparr>)"
    unfolding f d by (simp add: sp MakePathFQN_def Separator_def)
  with gen show ?thesis by simp
qed

text \<open>
  The claim as it stands, that the object name is recovered, fails for the object
  \<open>a/b.txt\<close>: the info holds the basename \<open>b.txt\<close>, as the comment on the field \<open>Base\<close>
  says, and the rest of the name is part of \<open>Dir\<close>.
\<close>

theorem Gen_FileSpec_roundtrip_counterexample:
  "Gen [''ob'' \<mapsto> ObjectContentResolver] ''t1'' 255
       \<lparr>ObjectName = ''a/b.txt'', Bucket = \<lparr>Name = ''bck''\<rparr>, Mountpath = \<lparr>Path = ''/mp''\<rparr>, CacheIdx = 0\<rparr>
       ''ob'' [] = Inr ''/mp/bck/ob/a/b.txt''
   \<and> FileSpec (ParseFQN [\<lparr>Path = ''/mp''\<rparr>]) [''ob'' \<mapsto> ObjectContentResolver] 255 ''/mp/bck/ob/a/b.txt''
       = (Some ObjectContentResolver,
          Some \<lparr>Dir = ''/mp/bck/ob/a/'', Base = ''b.txt'', Type = ''ob'', Old = False\<rparr>)
   \<and> ''b.txt'' \<noteq> ObjectName \<lparr>ObjectName = ''a/b.txt'', Bucket = \<lparr>Name = ''bck''\<rparr>,
                                Mountpath = \<lparr>Path = ''/mp''\<rparr>, CacheIdx = 0\<rparr>"
  by (simp add: Gen_def MakePathFQN_def FileSpec_def filepath_Split_def LastIndex_def
        Separator_def HasSuffix_def ParseFQN_def HasPrefix_def cut_sep_def)

section \<open>Properties of the bucket-copy jogger\<close>



lemma sint_of_nat_small:
  assumes "n < 2 ^ 63"
  shows "sint (of_nat n :: 64 word) = int n"
proof -
  have "(of_nat n :: 64 word) = word_of_int (int n)" by simp
  then have "sint (of_nat n :: 64 word) = (int n + 2 ^ 63) mod 2 ^ 64 - 2 ^ 63"
    by (simp only: int_word_sint) simp
  moreover have "int n < 2 ^ 63" using assms by (metis of_nat_less_iff of_nat_numeral of_nat_power)
  then have "(int n + 2 ^ 63) mod 2 ^ 64 = int n + 2 ^ 63"
    by (intro mod_pos_pos_trivial) simp_all
  ultimately show ?thesis by simp
qed

lemma copyObject_step:
  "num (fst (fst (copyObject t (copied, err) cs (j, r) lom))) = (if copied then num j + 1 else num j)"
  "objs (snd (fst (copyObject t (copied, err) cs (j, r) lom))) = (if copied then objs r + 1 else objs r)"
  "Kind (snd (fst (copyObject t (copied, err) cs (j, r) lom))) = Kind r"
  "ID (snd (fst (copyObject t (copied, err) cs (j, r) lom))) = ID r"
  by (auto simp: copyObject_def ObjectsInc_def BytesAdd_def Let_def split: option.splits)

lemma copyObject_cap_abort:
  "sint (num j + 1) mod t = 0 \<Longrightarrow>
     snd (copyObject t (True, err) (Some csErr) (j, r) lom)
       = Some (ErrAborted (Kind r, ID r) (Message csErr))"
  by (simp add: copyObject_def ObjectsInc_def BytesAdd_def Let_def)

lemma walk_counts:
  "joggerBckBase_jog t (j, r) pre = ((j1, r1), None) \<Longrightarrow>
     num j1 = num j + of_nat (copied_count pre) \<and> objs r1 = objs r + of_nat (copied_count pre)
     \<and> Kind r1 = Kind r \<and> ID r1 = ID r"
proof (induction pre arbitrary: j r)
  case Nil
  then show ?case by (simp add: copied_count_def)
next
  case (Cons v pre)
  obtain lom copied err cs where v: "v = (lom, (copied, err), cs)" by (metis surj_pair)
  obtain j' r' e where c: "copyObject t (copied, err) cs (j, r) lom = ((j', r'), e)"
    by (metis surj_pair)
  with Cons.prems v have e: "e = None" and w: "joggerBckBase_jog t (j', r') pre = ((j1, r1), None)"
    by (auto split: option.splits)
  from copyObject_step [of t copied err cs j r lom] c
  have s: "num j' = (if copied then num j + 1 else num j)"
    "objs r' = (if copied then objs r + 1 else objs r)" "Kind r' = Kind r" "ID r' = ID r"
    by simp_all
  from Cons.IH [OF w] s v show ?case
    by (simp add: copied_count_def)
qed

lemma walk_append:
  "joggerBckBase_jog t jr pre = (jr1, None) \<Longrightarrow>
     joggerBckBase_jog t jr (pre @ rest) = joggerBckBase_jog t jr1 rest"
proof (induction pre arbitrary: jr)
  case Nil
  then show ?case by simp
next
  case (Cons v pre)
  obtain lom res cs where v: "v = (lom, res, cs)" by (metis surj_pair)
  obtain jr' e where c: "copyObject t res cs jr lom = (jr', e)" by (metis surj_pair)
  with Cons.prems v have "e = None" "joggerBckBase_jog t jr' pre = (jr1, None)"
    by (auto split: option.splits)
  with Cons.IH [of jr'] v c show ?case by simp
qed


text \<open>
  C3. An object counts as processed when \<open>CopyObject\<close> reports it copied. For such an
  object, and for no other, \<open>copyObject\<close> advances the jogger's \<open>num\<close> and the job's
  counter of objects by one. When the object is copied, the interval divides the new
  value of \<open>num\<close> and the capacity status carries an error, \<open>copyObject\<close> returns the
  abort error made of the job's kind and id and the text of the status error; whenever
  the error of \<open>CopyObject\<close> is classified out of space, it returns an abort error made
  of the job's kind and id. Over a walk: a jogger starts with \<open>num\<close> at zero and has
  walked some objects without an error; then \<open>num\<close> is the number of objects copied so
  far. If the next object is copied, is the interval-th, twice interval-th, ... of the
  copied ones (their number staying below \<open>2 ^ 63\<close>), and the capacity status carries an
  error, the walk ends at this object with that abort error, whatever objects remain.
\<close>

theorem copyObject_aborts:
  "(copied \<longrightarrow>
      num (fst (fst (copyObject t (copied, err) cs (j, r) lom))) = num j + 1
      \<and> objs (snd (fst (copyObject t (copied, err) cs (j, r) lom))) = objs r + 1)
   \<and> (\<not> copied \<longrightarrow>
      num (fst (fst (copyObject t (copied, err) cs (j, r) lom))) = num j
      \<and> objs (snd (fst (copyObject t (copied, err) cs (j, r) lom))) = objs r)
   \<and> (copied \<and> sint (num j + 1) mod t = 0 \<and> cs = Some csErr \<longrightarrow>
      snd (copyObject t (copied, err) cs (j, r) lom)
        = Some (ErrAborted (Kind r, ID r) (Message csErr)))
   \<and> (IsErrOOS err \<longrightarrow>
      (\<exists>details. snd (copyObject t (copied, err) cs (j, r) lom)
                   = Some (ErrAborted (Kind r, ID r) details)))
   \<and> (num ja = 0 \<and> joggerBckBase_jog t (ja, ra) pre = ((jb, rb), None)
        \<and> copied_count pre + 1 < 2 ^ 63 \<and> int (copied_count pre + 1) mod t = 0 \<longrightarrow>
      num jb = of_nat (copied_count pre) \<and> objs rb = objs ra + of_nat (copied_count pre)
      \<and> joggerBckBase_jog t (ja, ra) (pre @ (lom', (True, err'), Some csErr') # post)
          = (fst (copyObject t (True, err') (Some csErr') (jb, rb) lom'),
             Some (ErrAborted (Kind ra, ID ra) (Message csErr'))))"
proof -
  have p1: "copied \<longrightarrow>
      num (fst (fst (copyObject t (copied, err) cs (j, r) lom))) = num j + 1
      \<and> objs (snd (fst (copyObject t (copied, err) cs (j, r) lom))) = objs r + 1"
    by (simp add: copyObject_step)
  have p2: "\<not> copied \<longrightarrow>
      num (fst (fst (copyObject t (copied, err) cs (j, r) lom))) = num j
      \<and> objs (snd (fst (copyObject t (copied, err) cs (j, r) lom))) = objs r"
    by (simp add: copyObject_step)
  have p3: "copied \<and> sint (num j + 1) mod t = 0 \<and> cs = Some csErr \<longrightarrow>
      snd (copyObject t (copied, err) cs (j, r) lom)
        = Some (ErrAborted (Kind r, ID r) (Message csErr))"
    by (auto simp: copyObject_cap_abort)
  have p4: "IsErrOOS err \<longrightarrow>
      (\<exists>details. snd (copyObject t (copied, err) cs (j, r) lom)
                   = Some (ErrAborted (Kind r, ID r) details))"
    by (auto simp: copyObject_def ObjectsInc_def BytesAdd_def IsErrOOS_def Let_def
             split: option.splits)
  have walk: "num jb = of_nat (copied_count pre) \<and> objs rb = objs ra + of_nat (copied_count pre)
      \<and> joggerBckBase_jog t (ja, ra) (pre @ (lom', (True, err'), Some csErr') # post)
          = (fst (copyObject t (True, err') (Some csErr') (jb, rb) lom'),
             Some (ErrAborted (Kind ra, ID ra) (Message csErr')))"
    if z: "num ja = 0" and w: "joggerBckBase_jog t (ja, ra) pre = ((jb, rb), None)"
      and small: "copied_count pre + 1 < 2 ^ 63" and hit: "int (copied_count pre + 1) mod t = 0"
  proof -
    from walk_counts [OF w] z have c: "num jb = of_nat (copied_count pre)"
      "objs rb = objs ra + of_nat (copied_count pre)" "Kind rb = Kind ra" "ID rb = ID ra"
      by simp_all
    have "num jb + 1 = of_nat (copied_count pre + 1)" using c(1) by simp
    then have "sint (num jb + 1) = int (copied_count pre + 1)"
      by (simp only: sint_of_nat_small [OF small])
    with hit have "sint (num jb + 1) mod t = 0" by simp
    from copyObject_cap_abort [OF this, of err' csErr' rb lom'] c
    have a: "snd (copyObject t (True, err') (Some csErr') (jb, rb) lom')
       = Some (ErrAborted (Kind ra, ID ra) (Message csErr'))" by simp
    have "joggerBckBase_jog t (ja, ra) (pre @ (lom', (True, err'), Some csErr') # post)
        = joggerBckBase_jog t (jb, rb) ((lom', (True, err'), Some csErr') # post)"
      using w by (rule walk_append)
    also have "\<dots> = (fst (copyObject t (True, err') (Some csErr') (jb, rb) lom'),
             Some (ErrAborted (Kind ra, ID ra) (Message csErr')))"
      using a by (cases "copyObject t (True, err') (Some csErr') (jb, rb) lom'") simp
    finally show ?thesis using c by simp
  qed
  have p5: "num ja = 0 \<and> joggerBckBase_jog t (ja, ra) pre = ((jb, rb), None)
        \<and> copied_count pre + 1 < 2 ^ 63 \<and> int (copied_count pre + 1) mod t = 0 \<longrightarrow>
      num jb = of_nat (copied_count pre) \<and> objs rb = objs ra + of_nat (copied_count pre)
      \<and> joggerBckBase_jog t (ja, ra) (pre @ (lom', (True, err'), Some csErr') # post)
          = (fst (copyObject t (True, err') (Some csErr') (jb, rb) lom'),
             Some (ErrAborted (Kind ra, ID ra) (Message csErr')))"
    by (rule impI, elim conjE, rule walk)
  from p1 p2 p3 p4 p5 show ?thesis by (intro conjI)
qed

theorem copyObject_aborts_witness:
  "joggerBckBase_jog 2
      (newBCCJogger, \<lparr>Kind = ''copybck'', ID = ''x1'', objs = 0, bytes = 0, slab = []\<rparr>)
      [(\<lparr>Uname = ''o1'', Size = 100\<rparr>, (True, None), None),
       (\<lparr>Uname = ''o2'', Size = 100\<rparr>, (False, None), Some \<lparr>Message = ''capacity'', OutOfSpace = True\<rparr>),
       (\<lparr>Uname = ''o3'', Size = 100\<rparr>, (True, None), Some \<lparr>Message = ''capacity'', OutOfSpace = True\<rparr>),
       (\<lparr>Uname = ''o4'', Size = 100\<rparr>, (True, None), None)]
     = ((\<lparr>num = 2, buf = NilBuf\<rparr>,
         \<lparr>Kind = ''copybck'', ID = ''x1'', objs = 2, bytes = 400, slab = []\<rparr>),
        Some (ErrAborted (''copybck'', ''x1'') ''capacity''))
   \<and> snd (copyObject 16 (False, Some \<lparr>Message = ''no space left'', OutOfSpace = True\<rparr>) None
            (\<lparr>num = 3, buf = Buf 0\<rparr>,
             \<lparr>Kind = ''copybck'', ID = ''x1'', objs = 3, bytes = 600, slab = []\<rparr>)
            \<lparr>Uname = ''o4'', Size = 100\<rparr>)
       = Some (ErrAborted (''copybck'', ''x1'') ''no space left'')"
proof -
  let ?r0 = "\<lparr>Kind = ''copybck'', ID = ''x1'', objs = 0, bytes = 0, slab = []\<rparr>"
  let ?pre = "[(\<lparr>Uname = ''o1'', Size = 100\<rparr>, (True, None :: error option), None :: error option),
       (\<lparr>Uname = ''o2'', Size = 100\<rparr>, (False, None), Some \<lparr>Message = ''capacity'', OutOfSpace = True\<rparr>)]"
  have c: "copied_count ?pre = 1" by (simp add: copied_count_def)
  have w: "joggerBckBase_jog 2 (newBCCJogger, ?r0) ?pre
      = ((\<lparr>num = 1, buf = NilBuf\<rparr>, \<lparr>Kind = ''copybck'', ID = ''x1'', objs = 1, bytes = 200, slab = []\<rparr>), None)"
    by (simp add: copyObject_def newBCCJogger_def ObjectsInc_def BytesAdd_def IsErrOOS_def)
  have h: "num newBCCJogger = 0 \<and> joggerBckBase_jog 2 (newBCCJogger, ?r0) ?pre
      = ((\<lparr>num = 1, buf = NilBuf\<rparr>, \<lparr>Kind = ''copybck'', ID = ''x1'', objs = 1, bytes = 200, slab = []\<rparr>), None)
      \<and> copied_count ?pre + 1 < 2 ^ 63 \<and> int (copied_count ?pre + 1) mod 2 = 0"
    using w c by (simp add: newBCCJogger_def)
  note walk = copyObject_aborts [where t = 2 and ja = newBCCJogger and ra = ?r0 and pre = ?pre
      and jb = "\<lparr>num = 1, buf = NilBuf\<rparr>"
      and rb = "\<lparr>Kind = ''copybck'', ID = ''x1'', objs = 1, bytes = 200, slab = []\<rparr>"
      and lom' = "\<lparr>Uname = ''o3'', Size = 100\<rparr>" and err' = None
      and csErr' = "\<lparr>Message = ''capacity'', OutOfSpace = True\<rparr>"
      and post = "[(\<lparr>Uname = ''o4'', Size = 100\<rparr>, (True, None), None)]",
      THEN conjunct2, THEN conjunct2, THEN conjunct2, THEN conjunct2, THEN mp, OF h,
      THEN conjunct2, THEN conjunct2]
  note oos = copyObject_aborts [where t = 16 and copied = False and j = "\<lparr>num = 3, buf = Buf 0\<rparr>"
      and cs = None and err = "Some \<lparr>Message = ''no space left'', OutOfSpace = True\<rparr>"
      and r = "\<lparr>Kind = ''copybck'', ID = ''x1'', objs = 3, bytes = 600, slab = []\<rparr>"
      and lom = "\<lparr>Uname = ''o4'', Size = 100\<rparr>",
      THEN conjunct2, THEN conjunct2, THEN conjunct2, THEN conjunct1]
  have s: "fst (copyObject 2 (True, None) (Some \<lparr>Message = ''capacity'', OutOfSpace = True\<rparr>)
         (\<lparr>num = 1, buf = NilBuf\<rparr>,
          \<lparr>Kind = ''copybck'', ID = ''x1'', objs = 1, bytes = 200, slab = []\<rparr>)
         \<lparr>Uname = ''o3'', Size = 100\<rparr>)
      = (\<lparr>num = 2, buf = NilBuf\<rparr>,
         \<lparr>Kind = ''copybck'', ID = ''x1'', objs = 2, bytes = 400, slab = []\<rparr>)"
    by (simp add: copyObject_def ObjectsInc_def BytesAdd_def IsErrOOS_def)
  have 1: "joggerBckBase_jog 2 (newBCCJogger, ?r0)
      [(\<lparr>Uname = ''o1'', Size = 100\<rparr>, (True, None), None),
       (\<lparr>Uname = ''o2'', Size = 100\<rparr>, (False, None), Some \<lparr>Message = ''capacity'', OutOfSpace = True\<rparr>),
       (\<lparr>Uname = ''o3'', Size = 100\<rparr>, (True, None), Some \<lparr>Message = ''capacity'', OutOfSpace = True\<rparr>),
       (\<lparr>Uname = ''o4'', Size = 100\<rparr>, (True, None), None)]
     = ((\<lparr>num = 2, buf = NilBuf\<rparr>,
         \<lparr>Kind = ''copybck'', ID = ''x1'', objs = 2, bytes = 400, slab = []\<rparr>),
        Some (ErrAborted (''copybck'', ''x1'') ''capacity''))"
    using walk unfolding s by simp
  have 2: "snd (copyObject 16 (False, Some \<lparr>Message = ''no space left'', OutOfSpace = True\<rparr>) None
            (\<lparr>num = 3, buf = Buf 0\<rparr>,
             \<lparr>Kind = ''copybck'', ID = ''x1'', objs = 3, bytes = 600, slab = []\<rparr>)
            \<lparr>Uname = ''o4'', Size = 100\<rparr>)
       = Some (ErrAborted (''copybck'', ''x1'') ''no space left'')"
    using oos by (simp add: copyObject_def IsErrOOS_def)
  from 1 2 show ?thesis by (rule conjI)
qed

text \<open>
  C4. When \<open>CopyObject\<close> reports the object copied, \<open>copyObject\<close> adds one to the job's
  object counter and twice the size of the object to its byte counter, whatever error
  it goes on to return; when the object is not copied, it leaves both counters as they
  are. The counters are \<open>int64\<close>, so the additions are those of 64-bit words.
\<close>

theorem copyObject_counters:
  "(fst CopyObject \<longrightarrow>
      objs (snd (fst (copyObject t CopyObject cs (j, r) lom))) = objs r + 1
      \<and> bytes (snd (fst (copyObject t CopyObject cs (j, r) lom))) = bytes r + 2 * Size lom)
   \<and> (\<not> fst CopyObject \<longrightarrow>
      objs (snd (fst (copyObject t CopyObject cs (j, r) lom))) = objs r
      \<and> bytes (snd (fst (copyObject t CopyObject cs (j, r) lom))) = bytes r)"
  by (cases CopyObject)
     (auto simp: copyObject_def ObjectsInc_def BytesAdd_def Let_def split: option.splits)

theorem copyObject_counters_witness:
  "objs (snd (fst (copyObject 16 (True, None) None
          (newBCCJogger, \<lparr>Kind = ''copybck'', ID = ''x1'', objs = 0, bytes = 0, slab = []\<rparr>)
          \<lparr>Uname = ''o1'', Size = 100\<rparr>))) = 1
   \<and> bytes (snd (fst (copyObject 16 (True, None) None
          (newBCCJogger, \<lparr>Kind = ''copybck'', ID = ''x1'', objs = 0, bytes = 0, slab = []\<rparr>)
          \<lparr>Uname = ''o1'', Size = 100\<rparr>))) = 200
   \<and> objs (snd (fst (copyObject 16 (False, None) None
          (newBCCJogger, \<lparr>Kind = ''copybck'', ID = ''x1'', objs = 7, bytes = 1400, slab = []\<rparr>)
          \<lparr>Uname = ''o1'', Size = 100\<rparr>))) = 7
   \<and> bytes (snd (fst (copyObject 16 (False, None) None
          (newBCCJogger, \<lparr>Kind = ''copybck'', ID = ''x1'', objs = 7, bytes = 1400, slab = []\<rparr>)
          \<lparr>Uname = ''o1'', Size = 100\<rparr>))) = 1400"
  using copyObject_counters [of "(True, None)" 16 None newBCCJogger
      "\<lparr>Kind = ''copybck'', ID = ''x1'', objs = 0, bytes = 0, slab = []\<rparr>" "\<lparr>Uname = ''o1'', Size = 100\<rparr>"]
    copyObject_counters [of "(False, None)" 16 None newBCCJogger
      "\<lparr>Kind = ''copybck'', ID = ''x1'', objs = 7, bytes = 1400, slab = []\<rparr>" "\<lparr>Uname = ''o1'', Size = 100\<rparr>"]
  by simp



section \<open>Properties of the bucket-copy job\<close>

lemma launch_all_map: "launch_all ps = map Launch ps"
  by (induction ps) auto

lemma waitDone_enough:
  "n \<le> length reports \<Longrightarrow>
     \<exists>err. waitDone n reports = Some (map report_event (take n reports), err)"
proof (induction n reports rule: waitDone.induct)
  case (1 reports)
  then show ?case by simp
next
  case (2 n)
  then show ?case by simp
next
  case (3 n mi e reports)
  then obtain err where "waitDone n reports = Some (map report_event (take n reports), err)"
    by auto
  then show ?case by (simp add: report_event_def)
qed

lemma waitDone_blocks: "length reports < n \<Longrightarrow> waitDone n reports = None"
  by (induction n reports rule: waitDone.induct) auto

lemma Run_trace:
  assumes "length availablePaths \<le> length reports"
  shows "\<exists>err. Run availablePaths reports =
       Some (DMOpen # map Launch availablePaths
               @ map report_event (take (length availablePaths) reports)
               @ [Sleep 2, DMClose, DMUnregRecv, Finish err], err)"
proof -
  from waitDone_enough [OF assms] obtain err where
    "waitDone (length availablePaths) reports =
       Some (map report_event (take (length availablePaths) reports), err)" by blast
  then show ?thesis
    by (simp add: Run_def runJoggers_def launch_all_map)
qed

lemma Run_blocks: "length reports < length availablePaths \<Longrightarrow> Run availablePaths reports = None"
  by (simp add: Run_def runJoggers_def waitDone_blocks)

lemma launches_append: "launches (xs @ ys) = launches xs @ launches ys"
  by (induction xs rule: launches.induct) auto

lemma reporters_append: "reporters (xs @ ys) = reporters xs @ reporters ys"
  by (induction xs rule: reporters.induct) auto

lemma launches_Launch: "launches (map Launch ps) = ps"
  by (induction ps) auto

lemma launches_report: "launches (map report_event rs) = []"
  by (induction rs) (auto simp: report_event_def)

lemma reporters_Launch: "reporters (map Launch ps) = []"
  by (induction ps) auto

lemma reporters_report: "reporters (map report_event rs) = map fst rs"
  by (induction rs) (auto simp: report_event_def)

lemma filter_Finish_Launch: "filter is_Finish (map Launch ps) = []"
  by (induction ps) auto

lemma filter_Finish_report: "filter is_Finish (map report_event rs) = []"
  by (induction rs) (auto simp: report_event_def)

lemma count_Launch:
  "count_list (map Launch ps) DMClose = 0" "count_list (map Launch ps) DMUnregRecv = 0"
  by (induction ps) auto

lemma count_report:
  "count_list (map report_event rs) DMClose = 0"
  "count_list (map report_event rs) DMUnregRecv = 0"
  by (induction rs) (auto simp: report_event_def)

lemma before_Launch:
  "ev = DMClose \<or> ev = DMUnregRecv \<Longrightarrow>
     before ev (map Launch ps @ tr) = map Launch ps @ before ev tr"
  by (induction ps) (auto simp: before_def)

lemma before_report:
  "ev = DMClose \<or> ev = DMUnregRecv \<Longrightarrow>
     before ev (map report_event rs @ tr) = map report_event rs @ before ev tr"
  by (induction rs) (auto simp: before_def report_event_def)

lemma before_trace:
  assumes ev: "ev = DMClose \<or> ev = DMUnregRecv"
  shows "before ev (DMOpen # map Launch ps @ map report_event rs
                      @ [Sleep 2, DMClose, DMUnregRecv, Finish err])
     = DMOpen # map Launch ps @ map report_event rs
         @ Sleep 2 # (if ev = DMClose then [] else [DMClose])"
proof -
  have "before ev (DMOpen # map Launch ps @ map report_event rs
                     @ [Sleep 2, DMClose, DMUnregRecv, Finish err])
      = DMOpen # before ev (map Launch ps @ map report_event rs
                     @ [Sleep 2, DMClose, DMUnregRecv, Finish err])"
    using ev by (auto simp: before_def)
  also have "\<dots> = DMOpen # map Launch ps @ map report_event rs
                     @ before ev [Sleep 2, DMClose, DMUnregRecv, Finish err]"
    using ev by (simp add: before_Launch before_report)
  also have "before ev [Sleep 2, DMClose, DMUnregRecv, Finish err]
      = Sleep 2 # (if ev = DMClose then [] else [DMClose])"
    using ev by (auto simp: before_def)
  finally show ?thesis .
qed

text \<open>
  C2. The job runs over a snapshot of M mountpaths, and every jogger it launches
  reports once (the reports, in the order of their arrival, name the mountpaths of the
  snapshot, each as often as it occurs there). Then \<open>Run\<close> returns, and among the events
  of its thread: the joggers launched are those of the snapshot, one per mountpath, M
  in all; \<open>Close\<close> and \<open>UnregRecv\<close> of the DataMover each happen once, and before either
  of them all M joggers have reported and the two seconds of sleep have passed;
  \<open>Finish\<close> is called once, as the last event, after the reports of all M joggers, with
  the error that \<open>Run\<close> returns.
\<close>

theorem Run_lifecycle:
  assumes "mset (map fst reports) = mset availablePaths"
  shows "\<exists>tr err. Run availablePaths reports = Some (tr, err)
           \<and> launches tr = availablePaths
           \<and> length (launches tr) = length availablePaths
           \<and> count_list tr DMClose = 1 \<and> count_list tr DMUnregRecv = 1
           \<and> mset (reporters (before DMClose tr)) = mset availablePaths
           \<and> Sleep 2 \<in> set (before DMClose tr)
           \<and> mset (reporters (before DMUnregRecv tr)) = mset availablePaths
           \<and> Sleep 2 \<in> set (before DMUnregRecv tr)
           \<and> length (filter is_Finish tr) = 1
           \<and> last tr = Finish err
           \<and> mset (reporters (butlast tr)) = mset availablePaths"
proof -
  from assms have "size (mset (map fst reports)) = size (mset availablePaths)" by simp
  then have len: "length reports = length availablePaths" by simp
  then obtain err where run: "Run availablePaths reports =
       Some (DMOpen # map Launch availablePaths @ map report_event reports
               @ [Sleep 2, DMClose, DMUnregRecv, Finish err], err)"
    using Run_trace [of availablePaths reports] by auto
  let ?tr = "DMOpen # map Launch availablePaths @ map report_event reports
               @ [Sleep 2, DMClose, DMUnregRecv, Finish err]"
  have 1: "launches ?tr = availablePaths"
    by (simp add: launches_append launches_Launch launches_report)
  have 2: "count_list ?tr DMClose = 1" "count_list ?tr DMUnregRecv = 1"
    by (simp_all add: count_Launch count_report)
  have 3: "mset (reporters (before DMClose ?tr)) = mset availablePaths"
    "mset (reporters (before DMUnregRecv ?tr)) = mset availablePaths"
    using assms by (simp_all add: before_trace reporters_append reporters_Launch reporters_report)
  have 4: "Sleep 2 \<in> set (before DMClose ?tr)" "Sleep 2 \<in> set (before DMUnregRecv ?tr)"
    by (simp_all add: before_trace)
  have 5: "length (filter is_Finish ?tr) = 1"
    by (simp add: filter_Finish_Launch filter_Finish_report)
  have 6: "last ?tr = Finish err" by simp
  have "butlast ?tr = DMOpen # map Launch availablePaths @ map report_event reports
               @ [Sleep 2, DMClose, DMUnregRecv]"
    by (simp add: butlast_append)
  then have 7: "mset (reporters (butlast ?tr)) = mset availablePaths"
    using assms by (simp add: reporters_append reporters_Launch reporters_report)
  from run 1 2 3 4 5 6 7 show ?thesis by simp
qed

theorem Run_lifecycle_witness:
  "mset (map fst [(\<lparr>Path = ''/b''\<rparr>, None :: jogError option), (\<lparr>Path = ''/a''\<rparr>, None)])
     = mset [\<lparr>Path = ''/a''\<rparr>, \<lparr>Path = ''/b''\<rparr>]
   \<and> Run [\<lparr>Path = ''/a''\<rparr>, \<lparr>Path = ''/b''\<rparr>] [(\<lparr>Path = ''/b''\<rparr>, None), (\<lparr>Path = ''/a''\<rparr>, None)]
     = Some ([DMOpen, Launch \<lparr>Path = ''/a''\<rparr>, Launch \<lparr>Path = ''/b''\<rparr>,
              Reported \<lparr>Path = ''/b''\<rparr> None, Reported \<lparr>Path = ''/a''\<rparr> None,
              Sleep 2, DMClose, DMUnregRecv, Finish None], None)"
proof -
  have h: "mset (map fst [(\<lparr>Path = ''/b''\<rparr>, None :: jogError option), (\<lparr>Path = ''/a''\<rparr>, None)])
     = mset [\<lparr>Path = ''/a''\<rparr>, \<lparr>Path = ''/b''\<rparr>]"
    by simp
  show ?thesis
    using h Run_lifecycle [OF h]
    by (simp add: Run_def runJoggers_def numeral_2_eq_2)
qed

end
